theory Spec2Isabelle
  imports Complex_Main
begin

unbundle bit_operations_syntax

section \<open>A shallow embedding of aiolifxc/aiolifx.py\<close>

text \<open>
  The module is asyncio code around UDP sockets. The embedding keeps the state of each
  object as a record, threads it through every method, and records what a method does to
  the outside world (datagrams handed to a transport, transports closed, tasks created or
  cancelled, log lines) as a list of effects carried in the state. Exceptions are values:
  a method that can raise returns an error or its result next to the state it leaves.
\<close>

subsection \<open>Exceptions\<close>

text \<open>
  \<open>LightOffline\<close> is the module's own exception. The others are Python's built-in
  ones that the modelled code can raise. \<open>KeyboardInterrupt\<close> and \<open>SystemExit\<close>
  derive from \<open>BaseException\<close> only; everything else derives from \<open>Exception\<close>.
\<close>

datatype error =
    LightOffline
  | ValueError
  | AssertionError
  | RuntimeError
  | AttributeError
  | KeyError
  | OtherException string
  | KeyboardInterrupt
  | SystemExit

definition is_Exception :: "error \<Rightarrow> bool" where
  "is_Exception e = (e \<noteq> KeyboardInterrupt \<and> e \<noteq> SystemExit)"

subsection \<open>Module constants\<close>

definition UDP_BROADCAST_IP :: string where
  "UDP_BROADCAST_IP = ''255.255.255.255''"

definition UDP_BROADCAST_PORT :: int where
  "UDP_BROADCAST_PORT = 56700"

definition DEFAULT_TIMEOUT :: real where
  "DEFAULT_TIMEOUT = 1 / 2"

definition DEFAULT_ATTEMPTS :: int where
  "DEFAULT_ATTEMPTS = 3"

definition DISCOVERY_INTERVAL :: int where
  "DISCOVERY_INTERVAL = 180"

definition DISCOVERY_STEP :: int where
  "DISCOVERY_STEP = 5"

text \<open>Modelled from the spec: the placeholder hardware address of a broadcast message
  (\<open>BROADCAST_MAC\<close> of message.py, which is not among the sources), taken to be the
  all-zero address. No property below depends on its value.\<close>

definition BROADCAST_MAC :: string where
  "BROADCAST_MAC = ''00:00:00:00:00:00''"

subsection \<open>\<open>_mac_to_ipv6_link_local\<close>\<close>

text \<open>
  \<open>mac.translate(trans)\<close> deletes the four delimiter characters. \<open>int(_, 16)\<close> is
  modelled on strings of hexadecimal digits of either case, the form a hardware address
  has once its delimiters are gone; on anything else, the empty string included, it is
  \<open>ValueError\<close>. (Python's \<open>int\<close> also accepts a sign, a \<open>0x\<close> prefix, single
  underscores and surrounding white space; no hardware address has them.)
\<close>

definition delimiters :: "char list" where
  "delimiters = [CHR '' '', CHR ''.'', CHR '':'', CHR ''-'']"

definition strip_delimiters :: "string \<Rightarrow> string" where
  "strip_delimiters mac = filter (\<lambda>c. c \<notin> set delimiters) mac"

definition hex_value :: "char \<Rightarrow> nat option" where
  "hex_value c =
     (let n = (of_char c :: nat)
      in if 48 \<le> n \<and> n \<le> 57 then Some (n - 48)
         else if 97 \<le> n \<and> n \<le> 102 then Some (n - 87)
         else if 65 \<le> n \<and> n \<le> 70 then Some (n - 55)
         else None)"

fun int16_acc :: "int \<Rightarrow> string \<Rightarrow> int option" where
  "int16_acc acc [] = Some acc"
| "int16_acc acc (c # cs) =
     (case hex_value c of
        None \<Rightarrow> None
      | Some d \<Rightarrow> int16_acc (16 * acc + int d) cs)"

definition int16 :: "string \<Rightarrow> int option" where
  "int16 s = (if s = [] then None else int16_acc 0 s)"

text \<open>The format specifications \<open>{:04x}\<close> and \<open>{:02x}\<close>: lowercase hexadecimal,
  padded with zeros on the left to the width at least; a minus sign counts in the width.\<close>

definition hex_char :: "nat \<Rightarrow> char" where
  "hex_char d = ''0123456789abcdef'' ! d"

fun to_hex :: "nat \<Rightarrow> string" where
  "to_hex n = (if n < 16 then [hex_char n] else to_hex (n div 16) @ [hex_char (n mod 16)])"

declare to_hex.simps [simp del]

definition zero_pad :: "nat \<Rightarrow> string \<Rightarrow> string" where
  "zero_pad w s = replicate (w - length s) CHR ''0'' @ s"

definition format_x :: "nat \<Rightarrow> int \<Rightarrow> string" where
  "format_x w n =
     (if n < 0 then CHR ''-'' # zero_pad (w - 1) (to_hex (nat (- n)))
      else zero_pad w (to_hex (nat n)))"

text \<open>In Python \<open>>>\<close> binds tighter than \<open>&\<close>, and \<open>&\<close> tighter than \<open>^\<close>:
  \<open>mac_value >> 32 & 0xffff ^ 0x0200\<close> is \<open>((mac_value >> 32) & 0xffff) ^ 0x0200\<close>.\<close>

definition mac_to_ipv6_link_local :: "string \<Rightarrow> string \<Rightarrow> error + string" where
  "mac_to_ipv6_link_local mac prefix =
     (case int16 (strip_delimiters mac) of
        None \<Rightarrow> Inl ValueError
      | Some mac_value \<Rightarrow>
          (let high2 = (drop_bit 32 mac_value AND 0xffff) XOR 0x0200;
               high1 = drop_bit 24 mac_value AND 0xff;
               low1 = drop_bit 16 mac_value AND 0xff;
               low2 = mac_value AND 0xffff
           in Inr (prefix @ '':'' @ format_x 4 high2 @ '':'' @ format_x 2 high1 @ ''ff:fe''
                   @ format_x 2 low1 @ '':'' @ format_x 4 low2)))"

text \<open>Modelled from the spec: the canonical form of a hardware address, six octets in
  lowercase hexadecimal separated by colons (produced by message.py, which is not among
  the sources). \<open>hex2\<close> writes one octet.\<close>

definition hex2 :: "nat \<Rightarrow> string" where
  "hex2 b = [hex_char (b div 16), hex_char (b mod 16)]"

definition mac_str :: "nat \<Rightarrow> nat \<Rightarrow> nat \<Rightarrow> nat \<Rightarrow> nat \<Rightarrow> nat \<Rightarrow> string" where
  "mac_str b0 b1 b2 b3 b4 b5 =
     hex2 b0 @ '':'' @ hex2 b1 @ '':'' @ hex2 b2 @ '':'' @ hex2 b3 @ '':'' @ hex2 b4 @ '':'' @ hex2 b5"

definition mac_nat :: "nat \<Rightarrow> nat \<Rightarrow> nat \<Rightarrow> nat \<Rightarrow> nat \<Rightarrow> nat \<Rightarrow> nat" where
  "mac_nat b0 b1 b2 b3 b4 b5 = ((((b0 * 256 + b1) * 256 + b2) * 256 + b3) * 256 + b4) * 256 + b5"

subsection \<open>Messages\<close>

text \<open>
  The wire codec (message.py, msgtypes.py, unpack.py) is not among the sources. A message
  is the record of the constructor's arguments together with its class; the packed bytes
  that \<open>generate_packed_message\<close> returns are represented by the message they encode, and
  \<open>unpack_lifx_message\<close> by the message it decodes. A Python \<open>str\<close> value carried
  in a payload or cached as an attribute is a list of code points.
\<close>

datatype msgtype =
    Acknowledgement
  | GetService
  | StateService
  | GetLabel
  | SetLabel
  | StateLabel
  | GetGroup
  | StateGroup
  | LightState
  | OtherType nat

type_synonym pystr = "nat list"

definition str :: "string \<Rightarrow> pystr" where
  "str s = map of_char s"

record msg =
  msg_type :: msgtype
  target_addr :: string
  msg_source_id :: nat
  seq_num :: nat
  payload :: "(string \<times> pystr) list"
  ack_requested :: bool
  response_requested :: bool

subsection \<open>class \<open>Light\<close>\<close>

text \<open>
  A transport and the task that creates the datagram endpoint are identified by the
  association they were made for. An entry of \<open>_message\<close> is the three-element list
  \<open>[response type, Event, response]\<close>: the event is \<open>None\<close> or an \<open>asyncio.Event\<close>
  with its flag, the response is \<open>None\<close> or the decoded reply. Of the cached attributes
  only the label and the group are kept.
\<close>

datatype family = AF_INET | AF_INET6

type_synonym endpoint = "family \<times> string \<times> int"

datatype effect =
    Sendto endpoint msg
  | WaitFor real
  | TransportClose endpoint
  | TaskCancel endpoint
  | CreateDatagramEndpoint endpoint
  | CreateTaskAsyncRegister
  | LogErrorUnreachable int

type_synonym entry = "msgtype \<times> bool option \<times> msg option"

record light =
  mac_addr :: string
  ip_addr :: string
  port :: int
  retry_count :: int
  timeout :: real
  transport :: "endpoint option"
  task :: "endpoint option"
  seq :: nat
  message :: "nat \<rightharpoonup> entry"
  source_id :: nat
  label :: "pystr option"
  group :: "pystr option"
  effects :: "effect list"

text \<open>\<open>str.lower\<close> on the ASCII letters, which are all a hardware address has.\<close>

definition lower :: "string \<Rightarrow> string" where
  "lower s =
     map (\<lambda>c. let n = (of_char c :: nat) in if 65 \<le> n \<and> n \<le> 90 then char_of (n + 32) else c) s"

text \<open>\<open>Light.__init__\<close>; the random source id is a parameter.\<close>

definition Light :: "string \<Rightarrow> string \<Rightarrow> int \<Rightarrow> nat \<Rightarrow> light" where
  "Light mac ip p sid =
     \<lparr> mac_addr = lower mac, ip_addr = ip, port = p,
       retry_count = DEFAULT_ATTEMPTS, timeout = DEFAULT_TIMEOUT,
       transport = None, task = None, seq = 0, message = Map.empty, source_id = sid,
       label = None, group = None, effects = [] \<rparr>"

definition register :: "light \<Rightarrow> light" where
  "register s = s\<lparr>effects := effects s @ [CreateTaskAsyncRegister]\<rparr>"

definition seq_next :: "light \<Rightarrow> nat \<times> light" where
  "seq_next s = (let v = (seq s + 1) mod 128 in (v, s\<lparr>seq := v\<rparr>))"

definition connection_made :: "light \<Rightarrow> endpoint \<Rightarrow> light" where
  "connection_made s tr = s\<lparr>transport := Some tr\<rparr>"

text \<open>\<open>datagram_received\<close>, on the decoded message. When the entry holds no event,
  \<open>myevent.set()\<close> raises after the response has been stored.\<close>

definition datagram_received :: "light \<Rightarrow> msg \<Rightarrow> error option \<times> light" where
  "datagram_received s response =
     (case message s (seq_num response) of
        None \<Rightarrow> (None, s)
      | Some (response_type, myevent, r) \<Rightarrow>
          if msg_type response = response_type then
            if msg_source_id response = source_id s then
              (case myevent of
                 None \<Rightarrow>
                   (Some AttributeError,
                    s\<lparr>message := (message s)(seq_num response \<mapsto> (response_type, None, Some response))\<rparr>)
               | Some _ \<Rightarrow>
                   (None,
                    s\<lparr>message := (message s)(seq_num response \<mapsto> (response_type, Some True, Some response))\<rparr>))
            else (None, s)
          else (None, s))"

text \<open>The acceptance condition in the spec's words: the sequence number has an
  outstanding entry, the reply's type is the entry's response type, and the reply's source
  id is the session's.\<close>

definition accepted :: "light \<Rightarrow> msg \<Rightarrow> bool" where
  "accepted s response =
     (case message s (seq_num response) of
        None \<Rightarrow> False
      | Some (response_type, _, _) \<Rightarrow>
          msg_type response = response_type \<and> msg_source_id response = source_id s)"

definition is_alive :: "light \<Rightarrow> bool" where
  "is_alive s = (if transport s = None then False else if task s = None then False else True)"

definition cleanup :: "light \<Rightarrow> light" where
  "cleanup s =
     (let s1 = (case transport s of
                  Some tr \<Rightarrow> s\<lparr>effects := effects s @ [TransportClose tr], transport := None\<rparr>
                | None \<Rightarrow> s)
      in (case task s1 of
            Some tk \<Rightarrow> s1\<lparr>effects := effects s1 @ [TaskCancel tk], task := None\<rparr>
          | None \<Rightarrow> s1))"

definition renew :: "light \<Rightarrow> family \<Rightarrow> string \<Rightarrow> int \<Rightarrow> light" where
  "renew s fam ip p =
     (let s1 = (if ip_addr s \<noteq> ip \<or> port s \<noteq> p
                then (cleanup s)\<lparr>ip_addr := ip, port := p\<rparr> else s);
          s2 = (if task s1 = None
                then s1\<lparr>task := Some (fam, ip_addr s1, port s1),
                        effects := effects s1 @ [CreateDatagramEndpoint (fam, ip_addr s1, port s1)]\<rparr>
                else s1)
      in register s2)"


subsection \<open>Sending with retries\<close>

definition event_is_set :: "light \<Rightarrow> nat \<Rightarrow> bool" where
  "event_is_set s k = (case message s k of Some (_, Some True, _) \<Rightarrow> True | _ \<Rightarrow> False)"

text \<open>In the spec's words, a matching reply to the call that sent \<open>m\<close> and awaits
  \<open>response_type\<close>: same sequence number, the awaited type, the session's source id.\<close>

definition reply_to :: "light \<Rightarrow> msg \<Rightarrow> msgtype \<Rightarrow> msg \<Rightarrow> bool" where
  "reply_to s m response_type response =
     (seq_num response = seq_num m \<and> msg_type response = response_type
      \<and> msg_source_id response = source_id s)"

text \<open>The first line of \<open>_try_sending\<close> after the assertion.\<close>

definition new_entry :: "light \<Rightarrow> msg \<Rightarrow> msgtype \<Rightarrow> light" where
  "new_entry s m response_type =
     s\<lparr>message := (message s)(seq_num m \<mapsto> (response_type, None, None))\<rparr>"

text \<open>The loop body up to \<open>sendto\<close>: the entry must be there, gets a fresh event, and
  the message goes to the transport (\<open>None\<close> has no \<open>sendto\<close>).\<close>

definition send_attempt :: "light \<Rightarrow> msg \<Rightarrow> error option \<times> light" where
  "send_attempt s m =
     (case message s (seq_num m) of
        None \<Rightarrow> (Some RuntimeError, s)
      | Some (response_type, _, r) \<Rightarrow>
          (let s1 = s\<lparr>message := (message s)(seq_num m \<mapsto> (response_type, Some False, r))\<rparr>
           in (case transport s1 of
                 None \<Rightarrow> (Some AttributeError, s1)
               | Some tr \<Rightarrow> (None, s1\<lparr>effects := effects s1 @ [Sendto tr m]\<rparr>))))"

text \<open>The handler of the last \<open>TimeoutError\<close>.\<close>

definition give_up :: "light \<Rightarrow> msg \<Rightarrow> int \<Rightarrow> light" where
  "give_up s m max_attempts =
     (let s1 = s\<lparr>effects := effects s @ [LogErrorUnreachable max_attempts]\<rparr>;
          s2 = (if seq_num m \<in> dom (message s1)
                then s1\<lparr>message := (message s1)(seq_num m := None)\<rparr> else s1)
      in cleanup s2)"

definition make_msg ::
  "light \<Rightarrow> msgtype \<Rightarrow> nat \<Rightarrow> (string \<times> pystr) list \<Rightarrow> bool \<Rightarrow> bool \<Rightarrow> msg" where
  "make_msg s mt k pl ack resp =
     \<lparr> msg_type = mt, target_addr = mac_addr s, msg_source_id = source_id s, seq_num = k,
       payload = pl, ack_requested = ack, response_requested = resp \<rparr>"

subsection \<open>Calls in flight together\<close>

text \<open>
  Several calls on one session interleave at their suspension points only. The part of
  \<open>_req_with_resp\<close> that runs before its first suspension allocates the sequence
  number, builds the message, enters it in \<open>_message\<close> and sends it once; the call then
  waits, holding its message. A call whose loop does not run at all returns at once.
\<close>

datatype progress = Waiting msg | Raised error | Finished

definition req_with_resp_begin :: "light \<Rightarrow> msgtype \<Rightarrow> msgtype \<Rightarrow> progress \<times> light" where
  "req_with_resp_begin s mt response_type =
     (let (k, s1) = seq_next s;
          m = make_msg s1 mt k [] False True
      in if transport s1 = None then (Raised AssertionError, s1)
         else
           (let s2 = new_entry s1 m response_type
            in if 0 < retry_count s2 then
                 (case send_attempt s2 m of
                    (Some e, s3) \<Rightarrow> (Raised e, s3)
                  | (None, s3) \<Rightarrow> (Waiting m, s3))
               else (Finished, s2\<lparr>message := (message s2)(seq_num m := None)\<rparr>)))"

text \<open>
  The same for every request: \<open>_req_with_ack\<close>, \<open>_req_with_resp\<close> and
  \<open>_req_with_ack_resp\<close> differ in the two flags of the message and in the response
  type awaited, and are called by the attribute methods with the default timeout and
  number of attempts.
\<close>

datatype request =
    AckRequest msgtype "(string \<times> pystr) list"
  | RespRequest msgtype msgtype "(string \<times> pystr) list option"
  | AckRespRequest msgtype msgtype "(string \<times> pystr) list"

fun request_msg :: "light \<Rightarrow> request \<Rightarrow> nat \<Rightarrow> msg" where
  "request_msg s (AckRequest mt pl) k = make_msg s mt k pl True False"
| "request_msg s (RespRequest mt response_type pl) k =
     make_msg s mt k (case pl of None \<Rightarrow> [] | Some p \<Rightarrow> p) False True"
| "request_msg s (AckRespRequest mt response_type pl) k = make_msg s mt k pl True True"

fun request_response_type :: "request \<Rightarrow> msgtype" where
  "request_response_type (AckRequest mt pl) = Acknowledgement"
| "request_response_type (RespRequest mt response_type pl) = response_type"
| "request_response_type (AckRespRequest mt response_type pl) = response_type"

definition request_begin :: "light \<Rightarrow> request \<Rightarrow> progress \<times> light" where
  "request_begin s rq =
     (let (k, s1) = seq_next s;
          m = request_msg s1 rq k
      in if transport s1 = None then (Raised AssertionError, s1)
         else
           (let s2 = new_entry s1 m (request_response_type rq)
            in if 0 < retry_count s2 then
                 (case send_attempt s2 m of
                    (Some e, s3) \<Rightarrow> (Raised e, s3)
                  | (None, s3) \<Rightarrow> (Waiting m, s3))
               else (Finished, s2\<lparr>message := (message s2)(seq_num m := None)\<rparr>)))"

text \<open>The requests of a list begun one after the other, none resumed: the messages that
  the waiting callers hold, in the order of the calls, and the session.\<close>

fun start_requests :: "request list \<Rightarrow> light \<Rightarrow> msg list \<times> light" where
  "start_requests [] s = ([], s)"
| "start_requests (rq # rqs) s =
     (case request_begin s rq of
        (Waiting m, s1) \<Rightarrow> (let (ms, s2) = start_requests rqs s1 in (m # ms, s2))
      | (_, s1) \<Rightarrow> start_requests rqs s1)"

subsection \<open>What happens while a call waits\<close>

text \<open>
  A coroutine is run from its call to its return. While it is suspended in
  \<open>wait_for\<close> the event loop runs the other callbacks and coroutines of the session,
  each from one suspension point to the next. These steps are its environment:
  \<^item> a datagram handed to \<open>datagram_received\<close> (an exception raised there ends in the
    event loop and not in the waiting caller);
  \<^item> another request beginning;
  \<^item> another call of \<open>_try_sending\<close> going on after a wait: sending again, giving up
    after its last timeout, or returning after its event was set, which reads the result
    and deletes the entry; an exception it raises goes to its own caller;
  \<^item> the method that made a request caching the label or the group it obtained or set;
  \<^item> discovery calling \<open>renew\<close> or \<open>cleanup\<close>, and the endpoint task calling
    \<open>connection_made\<close>.
\<close>

datatype step =
    Datagram msg
  | Begin request
  | Resend msg
  | GiveUp msg int
  | Finish msg
  | CacheLabel pystr
  | CacheGroup pystr
  | Renew family string int
  | ConnectionMade endpoint
  | Cleanup

fun step_apply :: "light \<Rightarrow> step \<Rightarrow> light" where
  "step_apply s (Datagram response) = snd (datagram_received s response)"
| "step_apply s (Begin rq) = snd (request_begin s rq)"
| "step_apply s (Resend m) = snd (send_attempt s m)"
| "step_apply s (GiveUp m max_attempts) = give_up s m max_attempts"
| "step_apply s (Finish m) = s\<lparr>message := (message s)(seq_num m := None)\<rparr>"
| "step_apply s (CacheLabel v) = s\<lparr>label := Some v\<rparr>"
| "step_apply s (CacheGroup v) = s\<lparr>group := Some v\<rparr>"
| "step_apply s (Renew fam ip p) = renew s fam ip p"
| "step_apply s (ConnectionMade tr) = connection_made s tr"
| "step_apply s (Cleanup) = cleanup s"

text \<open>
  The \<open>Event\<close> a call creates for an attempt is its own object, which it also stores
  in the entry under its sequence number. It stays in that entry until another call puts
  a new list or a new event there, or deletes the entry (\<open>displaces\<close>); as long as it
  is there, a datagram that the entry accepts sets it (\<open>fires\<close>). Once set it stays
  set.
\<close>

fun displaces :: "light \<Rightarrow> nat \<Rightarrow> step \<Rightarrow> bool" where
  "displaces s k (Begin rq) = (transport s \<noteq> None \<and> (seq s + 1) mod 128 = k)"
| "displaces s k (Resend m) = (seq_num m = k)"
| "displaces s k (GiveUp m max_attempts) = (seq_num m = k)"
| "displaces s k (Finish m) = (seq_num m = k)"
| "displaces s k _ = False"

fun fires :: "light \<Rightarrow> nat \<Rightarrow> step \<Rightarrow> bool" where
  "fires s k (Datagram response) = (seq_num response = k \<and> accepted s response)"
| "fires s k _ = False"

text \<open>\<open>wait_steps s k own fired es\<close> runs the steps \<open>es\<close>; \<open>own\<close> says that the
  caller's event is still in the entry \<open>k\<close>, \<open>fired\<close> that it has been set.\<close>

fun wait_steps :: "light \<Rightarrow> nat \<Rightarrow> bool \<Rightarrow> bool \<Rightarrow> step list \<Rightarrow> bool \<times> light" where
  "wait_steps s k own fired [] = (fired, s)"
| "wait_steps s k own fired (e # es) =
     wait_steps (step_apply s e) k (own \<and> \<not> displaces s k e) (fired \<or> (own \<and> fires s k e)) es"

text \<open>\<open>await aio.wait_for(event.wait(), timeout_secs)\<close>, with the steps taken before
  the caller goes on: \<open>True\<close> when the event was set, \<open>False\<close> for
  \<open>TimeoutError\<close>.\<close>

definition wait_for :: "light \<Rightarrow> real \<Rightarrow> nat \<Rightarrow> step list \<Rightarrow> bool \<times> light" where
  "wait_for s timeout_secs k es =
     wait_steps (s\<lparr>effects := effects s @ [WaitFor timeout_secs]\<rparr>) k True False es"

text \<open>The environment of a call lists the steps of each of its waits in turn; one that
  has run out brings nothing more.\<close>

function try_loop :: "light \<Rightarrow> msg \<Rightarrow> real \<Rightarrow> int \<Rightarrow> int \<Rightarrow> step list list \<Rightarrow> error option \<times> light" where
  "try_loop s m timeout_secs max_attempts attempts env =
     (if attempts < max_attempts then
        (case send_attempt s m of
           (Some e, s1) \<Rightarrow> (Some e, s1)
         | (None, s2) \<Rightarrow>
             (case wait_for s2 timeout_secs (seq_num m) (case env of [] \<Rightarrow> [] | es # _ \<Rightarrow> es) of
                (fired, s3) \<Rightarrow>
                  if fired then (None, s3)
                  else if attempts + 1 \<ge> max_attempts then
                    (Some LightOffline, give_up s3 m max_attempts)
                  else try_loop s3 m timeout_secs max_attempts (attempts + 1) (tl env)))
      else (None, s))"
  by pat_completeness auto
termination
  by (relation "measure (\<lambda>(s, m, timeout_secs, max_attempts, attempts, env). nat (max_attempts - attempts))")
    auto

declare try_loop.simps [simp del]

definition try_sending ::
  "light \<Rightarrow> msg \<Rightarrow> msgtype \<Rightarrow> real option \<Rightarrow> int option \<Rightarrow> step list list
     \<Rightarrow> (error + msg option) \<times> light" where
  "try_sending s m response_type timeout_secs max_attempts env =
     (if transport s = None then (Inl AssertionError, s)
      else
        (let s1 = new_entry s m response_type;
             t = (case timeout_secs of None \<Rightarrow> timeout s1 | Some t \<Rightarrow> t);
             n = (case max_attempts of None \<Rightarrow> retry_count s1 | Some n \<Rightarrow> n)
         in (case try_loop s1 m t n 0 env of
               (Some e, s2) \<Rightarrow> (Inl e, s2)
             | (None, s2) \<Rightarrow>
                 (case message s2 (seq_num m) of
                    None \<Rightarrow> (Inl KeyError, s2)
                  | Some (_, _, r) \<Rightarrow>
                      (Inr r, s2\<lparr>message := (message s2)(seq_num m := None)\<rparr>)))))"

definition req_with_ack ::
  "light \<Rightarrow> msgtype \<Rightarrow> (string \<times> pystr) list \<Rightarrow> real option \<Rightarrow> int option \<Rightarrow> step list list
     \<Rightarrow> (error + msg option) \<times> light" where
  "req_with_ack s mt pl timeout_secs max_attempts env =
     (let (k, s1) = seq_next s;
          m = make_msg s1 mt k pl True False
      in try_sending s1 m Acknowledgement timeout_secs max_attempts env)"

definition req_with_resp ::
  "light \<Rightarrow> msgtype \<Rightarrow> msgtype \<Rightarrow> (string \<times> pystr) list option \<Rightarrow> real option \<Rightarrow> int option
     \<Rightarrow> step list list \<Rightarrow> (error + msg option) \<times> light" where
  "req_with_resp s mt response_type pl timeout_secs max_attempts env =
     (let pl1 = (case pl of None \<Rightarrow> [] | Some p \<Rightarrow> p);
          (k, s1) = seq_next s;
          m = make_msg s1 mt k pl1 False True
      in try_sending s1 m response_type timeout_secs max_attempts env)"

definition set_label :: "light \<Rightarrow> pystr \<Rightarrow> step list list \<Rightarrow> (error + unit) \<times> light" where
  "set_label s val env =
     (let v = (if length val > 32 then take 32 val else val)
      in (case req_with_ack s SetLabel [(''label'', v)] None None env of
            (Inl e, s1) \<Rightarrow> (Inl e, s1)
          | (Inr _, s1) \<Rightarrow> (Inr (), s1\<lparr>label := Some v\<rparr>)))"

text \<open>The datagrams of a list handed to \<open>datagram_received\<close> in turn.\<close>

definition deliver :: "light \<Rightarrow> msg list \<Rightarrow> light" where
  "deliver s ds = fold (\<lambda>response s'. snd (datagram_received s' response)) ds s"

subsection \<open>class \<open>Lights\<close>\<close>

record lights =
  light_list :: "light list"

definition get_clone :: "lights \<Rightarrow> light list \<Rightarrow> lights" where
  "get_clone self ll = \<lparr> light_list = ll \<rparr>"

definition get_by_group :: "lights \<Rightarrow> pystr \<Rightarrow> lights" where
  "get_by_group self g = get_clone self (filter (\<lambda>l. group l = Some g) (light_list self))"

definition get_by_label :: "lights \<Rightarrow> pystr \<Rightarrow> lights" where
  "get_by_label self lb = get_clone self (filter (\<lambda>l. group l = Some lb) (light_list self))"

definition get_by_mac_addr :: "lights \<Rightarrow> string \<Rightarrow> lights" where
  "get_by_mac_addr self mac = get_clone self (filter (\<lambda>l. mac_addr l = mac) (light_list self))"

text \<open>
  \<open>do_for_every_light\<close>. The operation acts on whatever it shares with the caller,
  the world \<open>'w\<close>, and returns or raises. \<open>gather\<close> runs the wrapped operations
  concurrently; here they run one after the other in the order of the collection. A
  wrapper that raises makes \<open>gather\<close> raise its exception and leaves the other
  wrappers running.
\<close>

datatype log_line = InfoOffline string | ExceptionIn string error

definition wrapper ::
  "(light \<Rightarrow> 'w \<Rightarrow> error option \<times> 'w) \<Rightarrow> light \<Rightarrow> 'w \<times> log_line list
     \<Rightarrow> error option \<times> 'w \<times> log_line list" where
  "wrapper fn l st =
     (case fn l (fst st) of
        (None, w) \<Rightarrow> (None, w, snd st)
      | (Some e, w) \<Rightarrow>
          if e = LightOffline then (None, w, snd st @ [InfoOffline (mac_addr l)])
          else if is_Exception e then (None, w, snd st @ [ExceptionIn (mac_addr l) e])
          else (Some e, w, snd st))"

fun gather ::
  "(light \<Rightarrow> 'w \<Rightarrow> error option \<times> 'w) \<Rightarrow> light list \<Rightarrow> 'w \<times> log_line list
     \<Rightarrow> error option \<times> 'w \<times> log_line list" where
  "gather fn [] st = (None, st)"
| "gather fn (l # ls) st =
     (case wrapper fn l st of
        (r, st1) \<Rightarrow>
          (case gather fn ls st1 of
             (r', st2) \<Rightarrow> ((case r of Some e \<Rightarrow> Some e | None \<Rightarrow> r'), st2)))"

definition do_for_every_light ::
  "lights \<Rightarrow> (light \<Rightarrow> 'w \<Rightarrow> error option \<times> 'w) \<Rightarrow> 'w \<Rightarrow> error option \<times> 'w \<times> log_line list" where
  "do_for_every_light self fn w = gather fn (light_list self) (w, [])"

text \<open>The fan-out in the spec's words: the operation is applied to every member in
  turn, whatever the others did; \<open>run_all\<close> pairs each member with how its call ended.
  A member that fails is logged, as offline or with the exception.\<close>

fun run_all ::
  "(light \<Rightarrow> 'w \<Rightarrow> error option \<times> 'w) \<Rightarrow> light list \<Rightarrow> 'w \<Rightarrow> (light \<times> error option) list \<times> 'w" where
  "run_all fn [] w = ([], w)"
| "run_all fn (l # ls) w =
     (case fn l w of
        (r, w1) \<Rightarrow> (case run_all fn ls w1 of (rs, w2) \<Rightarrow> ((l, r) # rs, w2)))"

fun log_for :: "light \<times> error option \<Rightarrow> log_line list" where
  "log_for (l, None) = []"
| "log_for (l, Some e) = (if e = LightOffline then [InfoOffline (mac_addr l)] else [ExceptionIn (mac_addr l) e])"

subsection \<open>class \<open>LifxDiscoveryProtocol\<close>\<close>

text \<open>\<open>_seen\<close> is a dictionary iterated in insertion order: an association list. The
  probes handed to the transport and the delays given to \<open>call_later\<close> are recorded.\<close>

record discovery =
  seen :: "(string \<times> light) list"
  disc_transport :: "endpoint option"
  disc_source_id :: nat
  ipv6prefix :: "string option"
  discovery_interval :: int
  discovery_step :: int
  discovery_countdown :: int
  probes :: "(msg \<times> string \<times> int) list"
  call_later :: "int list"

definition LifxDiscoveryProtocol :: "nat \<Rightarrow> string option \<Rightarrow> int \<Rightarrow> int \<Rightarrow> discovery" where
  "LifxDiscoveryProtocol sid pre interval step =
     \<lparr> seen = [], disc_transport = None, disc_source_id = sid, ipv6prefix = pre,
       discovery_interval = interval, discovery_step = step, discovery_countdown = 0,
       probes = [], call_later = [] \<rparr>"

definition discover :: "discovery \<Rightarrow> discovery" where
  "discover d =
     (case disc_transport d of
        None \<Rightarrow> d
      | Some _ \<Rightarrow>
          (let d1 = d\<lparr>seen := filter (\<lambda>(mac, l). is_alive l) (seen d)\<rparr>;
               d2 = (if discovery_countdown d1 \<le> 0 then
                       d1\<lparr>discovery_countdown := discovery_interval d1,
                          probes := probes d1 @
                            [(\<lparr> msg_type = GetService, target_addr = BROADCAST_MAC,
                                msg_source_id = disc_source_id d1, seq_num = 0, payload = [],
                                ack_requested = False, response_requested = True \<rparr>,
                              UDP_BROADCAST_IP, UDP_BROADCAST_PORT)]\<rparr>
                     else d1\<lparr>discovery_countdown := discovery_countdown d1 - discovery_step d1\<rparr>)
           in d2\<lparr>call_later := call_later d2 @ [discovery_step d2]\<rparr>))"

text \<open>The wake loop: \<open>connection_made\<close> stores the transport and calls \<open>_discover\<close>
  soon; every wake after that is the one its predecessor scheduled. \<open>probe_wakes i n d\<close>
  lists, of \<open>n\<close> wakes from state \<open>d\<close> numbered from \<open>i\<close>, those that send a probe.\<close>

definition disc_connection_made :: "discovery \<Rightarrow> endpoint \<Rightarrow> discovery" where
  "disc_connection_made d tr = d\<lparr>disc_transport := Some tr\<rparr>"

fun probe_wakes :: "nat \<Rightarrow> nat \<Rightarrow> discovery \<Rightarrow> nat list" where
  "probe_wakes i 0 d = []"
| "probe_wakes i (Suc n) d =
     (let d' = discover d
      in (if length (probes d') > length (probes d) then [i] else []) @ probe_wakes (Suc i) n d')"


subsection \<open>States used as examples\<close>

text \<open>A session as discovery leaves it: constructed, renewed for its first address, its
  endpoint connected. And a discovery protocol with the default tuning, bound.\<close>

definition connected_light :: light where
  "connected_light =
     connection_made
       (renew (Light ''d0:73:d5:01:0a:f3'' ''10.0.0.5'' 56700 7) AF_INET ''10.0.0.5'' 56700)
       (AF_INET, ''10.0.0.5'', 56700)"

definition bound_discovery :: discovery where
  "bound_discovery =
     disc_connection_made (LifxDiscoveryProtocol 7 None DISCOVERY_INTERVAL DISCOVERY_STEP)
       (AF_INET, ''0.0.0.0'', UDP_BROADCAST_PORT)"

text \<open>A \<open>GetLabel\<close> request on that session, and the session while the request is in
  flight: begun, and sent a second time after its first wait timed out.\<close>

definition label_request :: msg where
  "label_request =
     \<lparr> msg_type = GetLabel, target_addr = ''d0:73:d5:01:0a:f3'', msg_source_id = 7,
       seq_num = 1, payload = [], ack_requested = False, response_requested = True \<rparr>"

definition waiting_light :: light where
  "waiting_light =
     step_apply (snd (req_with_resp_begin connected_light GetLabel StateLabel)) (Resend label_request)"

section \<open>Properties\<close>

subsection \<open>The IPv6 address of a hardware address\<close>

lemma to_hex_small: "n < 16 \<Longrightarrow> to_hex n = [hex_char n]"
  by (simp add: to_hex.simps)

lemma to_hex_large: "16 \<le> n \<Longrightarrow> to_hex n = to_hex (n div 16) @ [hex_char (n mod 16)]"
  by (subst to_hex.simps) simp


lemma lt16_cases:
  "(d::nat) < 16 \<Longrightarrow> d = 0 \<or> d = 1 \<or> d = 2 \<or> d = 3 \<or> d = 4 \<or> d = 5 \<or> d = 6 \<or> d = 7
     \<or> d = 8 \<or> d = 9 \<or> d = 10 \<or> d = 11 \<or> d = 12 \<or> d = 13 \<or> d = 14 \<or> d = 15"
  by arith

lemma hex_value_hex_char: 
  assumes "d < 16" shows "hex_value (hex_char d) = Some d"
  using lt16_cases [OF assms] by (elim disjE) (simp_all add: hex_char_def hex_value_def)

lemma hex_char_not_delimiter:
  assumes "d < 16" shows "hex_char d \<notin> set delimiters"
  using lt16_cases [OF assms] by (elim disjE) (simp_all add: hex_char_def delimiters_def)

lemma strip_hex2: "b < 256 \<Longrightarrow> strip_delimiters (hex2 b @ s) = hex2 b @ strip_delimiters s"
  by (simp add: strip_delimiters_def hex2_def hex_char_not_delimiter)

lemma strip_colon: "strip_delimiters (CHR '':'' # s) = strip_delimiters s"
  by (simp add: strip_delimiters_def delimiters_def)

lemma strip_mac_str:
  assumes "b0 < 256" "b1 < 256" "b2 < 256" "b3 < 256" "b4 < 256" "b5 < 256"
  shows "strip_delimiters (mac_str b0 b1 b2 b3 b4 b5) = hex2 b0 @ hex2 b1 @ hex2 b2 @ hex2 b3 @ hex2 b4 @ hex2 b5"
  using assms strip_hex2 [of b5 "[]"]
  by (simp add: mac_str_def strip_hex2 strip_colon) (simp add: strip_delimiters_def)

lemma int16_acc_hex2:
  "b < 256 \<Longrightarrow> int16_acc acc (hex2 b @ s) = int16_acc (256 * acc + int b) s"
proof -
  assume b: "b < 256"
  then have "b div 16 < 16" "b mod 16 < 16" by simp_all
  then have "int16_acc acc (hex2 b @ s) = int16_acc (16 * (16 * acc + int (b div 16)) + int (b mod 16)) s"
    by (simp add: hex2_def hex_value_hex_char)
  also have "16 * (16 * acc + int (b div 16)) + int (b mod 16) = 256 * acc + int b"
    by (simp add: algebra_simps zdiv_int zmod_int) 
  finally show ?thesis .
qed

lemma int16_mac_str:
  assumes "b0 < 256" "b1 < 256" "b2 < 256" "b3 < 256" "b4 < 256" "b5 < 256"
  shows "int16 (strip_delimiters (mac_str b0 b1 b2 b3 b4 b5)) = Some (int (mac_nat b0 b1 b2 b3 b4 b5))"
proof -
  have ne: "hex2 b0 @ hex2 b1 @ hex2 b2 @ hex2 b3 @ hex2 b4 @ hex2 b5 \<noteq> []"
    by (simp add: hex2_def)
  have "int16_acc 0 (hex2 b0 @ hex2 b1 @ hex2 b2 @ hex2 b3 @ hex2 b4 @ hex2 b5 @ [])
        = Some (int (mac_nat b0 b1 b2 b3 b4 b5))"
    using assms by (simp only: int16_acc_hex2 int16_acc.simps) (simp add: mac_nat_def algebra_simps)
  with ne show ?thesis
    using assms by (simp add: strip_mac_str int16_def)
qed

lemma and_ffff: "(x::int) AND 0xffff = x mod 65536"
  using take_bit_eq_mask [of 16 x] by (simp add: take_bit_eq_mod mask_eq_exp_minus_1)

lemma and_ff: "(x::int) AND 0xff = x mod 256"
  using take_bit_eq_mask [of 8 x] by (simp add: take_bit_eq_mod mask_eq_exp_minus_1)


lemma div_step: "r < 256 \<Longrightarrow> (x * 256 + r) div 256 = (x::nat)"
  by simp

lemma mod_step: "r < 256 \<Longrightarrow> (x * 256 + r) mod 256 = (r::nat)"
  by simp

lemma div_65536: "(n::nat) div 65536 = n div 256 div 256"
  using div_mult2_eq [of n 256 256] by simp

lemma div_16777216: "(n::nat) div 16777216 = n div 256 div 256 div 256"
  using div_mult2_eq [of n 65536 256] by (simp add: div_65536)

lemma div_4294967296: "(n::nat) div 4294967296 = n div 256 div 256 div 256 div 256"
  using div_mult2_eq [of n 16777216 256] by (simp add: div_16777216)

lemma mod_65536: "r < 256 \<Longrightarrow> q < 256 \<Longrightarrow> ((x * 256 + q) * 256 + r) mod 65536 = q * 256 + (r::nat)"
proof -
  assume r: "r < 256" and q: "q < 256"
  have "(x * 256 + q) * 256 + r = x * 65536 + (q * 256 + r)"
    by (simp add: algebra_simps)
  moreover have "(x * 65536 + (q * 256 + r)) mod 65536 = (q * 256 + r) mod 65536"
    by (rule mod_mult_self3)
  moreover have "q * 256 + r < 65536" using r q by simp
  ultimately show ?thesis by (simp only: mod_less)
qed

lemma mac_nat_fields:
  assumes "b0 < 256" "b1 < 256" "b2 < 256" "b3 < 256" "b4 < 256" "b5 < 256"
  shows "mac_nat b0 b1 b2 b3 b4 b5 div 4294967296 mod 65536 = b0 * 256 + b1"
    and "mac_nat b0 b1 b2 b3 b4 b5 div 16777216 mod 256 = b2"
    and "mac_nat b0 b1 b2 b3 b4 b5 div 65536 mod 256 = b3"
    and "mac_nat b0 b1 b2 b3 b4 b5 mod 65536 = b4 * 256 + b5"
proof -
  have small: "b0 * 256 + b1 < 65536"
    using assms by simp
  show "mac_nat b0 b1 b2 b3 b4 b5 div 4294967296 mod 65536 = b0 * 256 + b1"
    unfolding mac_nat_def div_4294967296 using assms small
    by (simp only: div_step mod_less)
  show "mac_nat b0 b1 b2 b3 b4 b5 div 16777216 mod 256 = b2"
    unfolding mac_nat_def div_16777216 using assms
    by (simp only: div_step mod_step)
  show "mac_nat b0 b1 b2 b3 b4 b5 div 65536 mod 256 = b3"
    unfolding mac_nat_def div_65536 using assms
    by (simp only: div_step mod_step)
  show "mac_nat b0 b1 b2 b3 b4 b5 mod 65536 = b4 * 256 + b5"
    unfolding mac_nat_def using assms
    by (simp only: mod_65536)
qed

lemma int_fields:
  "drop_bit 32 (int n) AND 0xffff = int (n div 4294967296 mod 65536)"
  "drop_bit 24 (int n) AND 0xff = int (n div 16777216 mod 256)"
  "drop_bit 16 (int n) AND 0xff = int (n div 65536 mod 256)"
  "int n AND 0xffff = int (n mod 65536)"
  by (simp_all add: drop_bit_eq_div and_ffff and_ff zdiv_int zmod_int)

lemma xor_pow2_int: "(x::int) XOR 2 ^ n = (if bit x n then x - 2 ^ n else x + 2 ^ n)"
  using flip_bit_eq_xor [of n x] by (auto simp: flip_bit_eq_if set_bit_eq unset_bit_eq)


lemma bit9_int: "bit (int m) 9 \<longleftrightarrow> odd (m div 512)"
proof -
  have "bit (int m) 9 \<longleftrightarrow> odd (int (m div 512))"
    by (simp add: bit_iff_odd zdiv_int)
  then show ?thesis by (simp only: even_of_nat)
qed

lemma bit1_int: "bit (int m) 1 \<longleftrightarrow> odd (m div 2)"
proof -
  have "bit (int m) 1 \<longleftrightarrow> odd (int (m div 2))"
    by (simp add: bit_iff_odd zdiv_int)
  then show ?thesis by (simp only: even_of_nat)
qed

lemma xor_200:
  assumes "b1 < 256"
  shows "int (b0 * 256 + b1) XOR 0x0200 = (int b0 XOR 2) * 256 + int b1"
proof -
  have "(b0 * 256 + b1) div 512 = (b0 * 256 + b1) div 256 div 2"
    using div_mult2_eq [of "b0 * 256 + b1" 256 2] by simp
  then have d: "(b0 * 256 + b1) div 512 = b0 div 2"
    using assms by (simp only: div_step)
  have a: "bit (int (b0 * 256 + b1)) 9 \<longleftrightarrow> odd (b0 div 2)"
    by (simp only: bit9_int d)
  have x1: "int (b0 * 256 + b1) XOR 0x0200 =
      (if odd (b0 div 2) then int (b0 * 256 + b1) - 512 else int (b0 * 256 + b1) + 512)"
    using xor_pow2_int [of "int (b0 * 256 + b1)" 9] by (simp only: a) simp
  have x2: "int b0 XOR 2 = (if odd (b0 div 2) then int b0 - 2 else int b0 + 2)"
    using xor_pow2_int [of "int b0" 1] by (simp only: bit1_int) simp
  show ?thesis
    unfolding x1 x2 by (simp add: algebra_simps)
qed


lemma xor_200_nat:
  assumes "b1 < 256"
  shows "int (b0 * 256 + b1) XOR 0x0200 = int ((b0 XOR 2) * 256 + b1)"
  using xor_200 [OF assms, of b0] of_nat_xor_eq [of b0 2, where ?'a = int] by simp

lemma xor_2_less:
  assumes "b < 256"
  shows "b XOR 2 < (256::nat)"
proof -
  have "int b XOR 2 < 2 ^ 8"
    by (rule XOR_upper) (use assms in simp_all)
  then have "int (b XOR 2) < 256"
    using of_nat_xor_eq [of b 2, where ?'a = int] by simp
  then show ?thesis by simp
qed

lemma hex_char_0: "hex_char 0 = CHR ''0''"
  by (simp add: hex_char_def)

lemma to_hex_digit:
  assumes "d < 16"
  shows "to_hex (n * 16 + d) = (if n = 0 then [hex_char d] else to_hex n @ [hex_char d])"
proof (cases "n = 0")
  case True
  then show ?thesis using assms by (simp add: to_hex_small)
next
  case False
  then have "16 \<le> n * 16 + d" by simp
  then have "to_hex (n * 16 + d) = to_hex ((n * 16 + d) div 16) @ [hex_char ((n * 16 + d) mod 16)]"
    by (rule to_hex_large)
  then show ?thesis using assms False by simp
qed

lemma zero_pad_2:
  assumes "d1 < 16" "d0 < 16"
  shows "zero_pad 2 (to_hex (d1 * 16 + d0)) = [hex_char d1, hex_char d0]"
  using assms
  apply (simp only: to_hex_digit)
  apply (auto simp: to_hex_small zero_pad_def hex_char_0 numeral_2_eq_2 numeral_3_eq_3)
  done

lemma zero_pad_4:
  assumes "d3 < 16" "d2 < 16" "d1 < 16" "d0 < 16"
  shows "zero_pad 4 (to_hex (((d3 * 16 + d2) * 16 + d1) * 16 + d0))
         = [hex_char d3, hex_char d2, hex_char d1, hex_char d0]"
  using assms
  apply (simp only: to_hex_digit)
  apply (auto simp: to_hex_small zero_pad_def hex_char_0 numeral_2_eq_2 numeral_3_eq_3)
  done

lemma format_x_2:
  assumes "b < 256"
  shows "format_x 2 (int b) = hex2 b"
proof -
  have "b div 16 < 16" "b mod 16 < 16" using assms by simp_all
  then have "zero_pad 2 (to_hex (b div 16 * 16 + b mod 16)) = hex2 b"
    unfolding hex2_def by (rule zero_pad_2)
  then show ?thesis by (simp only: format_x_def nat_int of_nat_less_0_iff if_False div_mult_mod_eq)
qed

lemma format_x_4:
  assumes "h < 256" "l < 256"
  shows "format_x 4 (int (h * 256 + l)) = hex2 h @ hex2 l"
proof -
  have "h div 16 < 16" "h mod 16 < 16" "l div 16 < 16" "l mod 16 < 16"
    using assms by simp_all
  then have "zero_pad 4 (to_hex (((h div 16 * 16 + h mod 16) * 16 + l div 16) * 16 + l mod 16))
        = hex2 h @ hex2 l"
    unfolding hex2_def append.simps by (rule zero_pad_4)
  moreover have "((h div 16 * 16 + h mod 16) * 16 + l div 16) * 16 + l mod 16 = h * 256 + l"
  proof -
    have "((h div 16 * 16 + h mod 16) * 16 + l div 16) * 16 + l mod 16
          = h * 256 + (l div 16 * 16 + l mod 16)"
      by (simp only: div_mult_mod_eq) (simp add: algebra_simps)
    then show ?thesis by (simp only: div_mult_mod_eq)
  qed
  ultimately show ?thesis by (simp only: format_x_def nat_int of_nat_less_0_iff if_False)
qed


lemma example_mac_value:
  "int16 (strip_delimiters ''01:23:45:67:89:ab'') = Some 0x0123456789ab"
  by (simp add: strip_delimiters_def delimiters_def int16_def hex_value_def)

lemma example_groups:
  "format_x 4 ((drop_bit 32 (0x0123456789ab::int) AND 0xffff) XOR 0x0200) = ''0323''"
  "format_x 2 (drop_bit 24 (0x0123456789ab::int) AND 0xff) = ''45''"
  "format_x 2 (drop_bit 16 (0x0123456789ab::int) AND 0xff) = ''67''"
  "format_x 4 ((0x0123456789ab::int) AND 0xffff) = ''89ab''"
  by (simp_all add: drop_bit_eq_div format_x_def zero_pad_def to_hex_small to_hex_large hex_char_def)

text \<open>
  C4, as amended. For every hardware address, six octets \<open>b0\<close> to \<open>b5\<close> written in the
  canonical colon-separated form, and every prefix, \<open>_mac_to_ipv6_link_local\<close> returns
  \<open>prefix:HHHH:HHff:feHH:HHHH\<close>: the first group is the upper 16 bits with the
  universal/local bit flipped, which is the first octet XOR 0x02 followed by the second
  octet; then come the third octet, the fourth octet, and the lowest 16 bits.
\<close>

theorem mac_to_ipv6_link_local_octets:
  assumes "b0 < 256" "b1 < 256" "b2 < 256" "b3 < 256" "b4 < 256" "b5 < 256"
  shows "mac_to_ipv6_link_local (mac_str b0 b1 b2 b3 b4 b5) prefix
         = Inr (prefix @ '':'' @ hex2 (b0 XOR 2) @ hex2 b1 @ '':'' @ hex2 b2 @ ''ff:fe''
                @ hex2 b3 @ '':'' @ hex2 b4 @ hex2 b5)"
proof -
  have v: "int16 (strip_delimiters (mac_str b0 b1 b2 b3 b4 b5)) = Some (int (mac_nat b0 b1 b2 b3 b4 b5))"
    by (rule int16_mac_str [OF assms])
  have g1: "format_x 4 ((drop_bit 32 (int (mac_nat b0 b1 b2 b3 b4 b5)) AND 0xffff) XOR 0x0200)
            = hex2 (b0 XOR 2) @ hex2 b1"
    using assms xor_2_less [of b0]
    by (simp only: int_fields mac_nat_fields xor_200_nat format_x_4)
  have g2: "format_x 2 (drop_bit 24 (int (mac_nat b0 b1 b2 b3 b4 b5)) AND 0xff) = hex2 b2"
    using assms by (simp only: int_fields mac_nat_fields format_x_2)
  have g3: "format_x 2 (drop_bit 16 (int (mac_nat b0 b1 b2 b3 b4 b5)) AND 0xff) = hex2 b3"
    using assms by (simp only: int_fields mac_nat_fields format_x_2)
  have g4: "format_x 4 (int (mac_nat b0 b1 b2 b3 b4 b5) AND 0xffff) = hex2 b4 @ hex2 b5"
    using assms by (simp only: int_fields mac_nat_fields format_x_4)
  show ?thesis
    unfolding mac_to_ipv6_link_local_def v option.case Let_def g1 g2 g3 g4
    by simp
qed

theorem mac_to_ipv6_link_local_octets_witness:
  "mac_to_ipv6_link_local ''d0:73:d5:01:0a:f3'' ''fe80:'' = Inr ''fe80::d273:d5ff:fe01:0af3''"
  using mac_to_ipv6_link_local_octets [of "0xd0" "0x73" "0xd5" "0x01" "0x0a" "0xf3" "''fe80:''"]
  by (simp add: mac_str_def hex2_def hex_char_def)

text \<open>
  C4 as stated fails on its own example: for 01:23:45:67:89:ab and prefix fd00:1234 the
  group after the prefix is 0323 (first octet 0x01 XOR 0x02 = 0x03, then 0x23), not 2145.
\<close>

theorem mac_to_ipv6_first_group_counterexample:
  "mac_to_ipv6_link_local ''01:23:45:67:89:ab'' ''fd00:1234''
     = Inr ''fd00:1234:0323:45ff:fe67:89ab''
   \<and> take 4 (drop (length ''fd00:1234:'') ''fd00:1234:0323:45ff:fe67:89ab'') \<noteq> ''2145''"
  unfolding mac_to_ipv6_link_local_def example_mac_value option.case Let_def example_groups
  by simp


subsection \<open>Replies and waiting callers\<close>

lemma connected_light_eq:
  "connected_light =
     \<lparr> mac_addr = ''d0:73:d5:01:0a:f3'', ip_addr = ''10.0.0.5'', port = 56700,
       retry_count = 3, timeout = 1 / 2,
       transport = Some (AF_INET, ''10.0.0.5'', 56700), task = Some (AF_INET, ''10.0.0.5'', 56700),
       seq = 0, message = Map.empty, source_id = 7, label = None, group = None,
       effects = [CreateDatagramEndpoint (AF_INET, ''10.0.0.5'', 56700), CreateTaskAsyncRegister] \<rparr>"
  by (simp add: connected_light_def connection_made_def renew_def Light_def lower_def register_def
      DEFAULT_ATTEMPTS_def DEFAULT_TIMEOUT_def)

lemma begin_connected_light:
  "req_with_resp_begin connected_light GetLabel StateLabel =
     (Waiting \<lparr> msg_type = GetLabel, target_addr = ''d0:73:d5:01:0a:f3'', msg_source_id = 7,
                seq_num = 1, payload = [], ack_requested = False, response_requested = True \<rparr>,
      \<lparr> mac_addr = ''d0:73:d5:01:0a:f3'', ip_addr = ''10.0.0.5'', port = 56700,
        retry_count = 3, timeout = 1 / 2,
        transport = Some (AF_INET, ''10.0.0.5'', 56700), task = Some (AF_INET, ''10.0.0.5'', 56700),
        seq = 1, message = [1 \<mapsto> (StateLabel, Some False, None)], source_id = 7,
        label = None, group = None,
        effects = [CreateDatagramEndpoint (AF_INET, ''10.0.0.5'', 56700), CreateTaskAsyncRegister,
          Sendto (AF_INET, ''10.0.0.5'', 56700)
            \<lparr> msg_type = GetLabel, target_addr = ''d0:73:d5:01:0a:f3'', msg_source_id = 7,
              seq_num = 1, payload = [], ack_requested = False, response_requested = True \<rparr>] \<rparr>)"
  by (simp add: connected_light_eq req_with_resp_begin_def seq_next_def make_msg_def new_entry_def
      send_attempt_def Let_def)

text \<open>
  C1. A caller waits on sequence number \<open>k\<close> for a reply of type \<open>rt\<close>, its event
  clear and its result slot unset. After any datagram its event is set if and only if the
  decoded reply carries sequence number \<open>k\<close>, type \<open>rt\<close> and the session's source
  id; then the slot holds that reply. If one of the three differs, the caller's entry is
  as before, event clear and slot unset. A datagram that no entry accepts leaves the whole
  session unchanged and raises nothing.
\<close>

theorem datagram_received_release_iff:
  assumes "message s k = Some (rt, Some False, None)"
  shows "(event_is_set (snd (datagram_received s response)) k
            \<longleftrightarrow> seq_num response = k \<and> msg_type response = rt \<and> msg_source_id response = source_id s)
       \<and> (seq_num response = k \<and> msg_type response = rt \<and> msg_source_id response = source_id s
            \<longrightarrow> datagram_received s response
                = (None, s\<lparr>message := (message s)(k \<mapsto> (rt, Some True, Some response))\<rparr>))
       \<and> (\<not> (seq_num response = k \<and> msg_type response = rt \<and> msg_source_id response = source_id s)
            \<longrightarrow> message (snd (datagram_received s response)) k = Some (rt, Some False, None))
       \<and> (\<not> accepted s response \<longrightarrow> datagram_received s response = (None, s))"
  using assms
  by (auto simp: datagram_received_def event_is_set_def accepted_def
      split: option.splits bool.splits if_splits)

theorem datagram_received_release_iff_witness:
  "event_is_set
     (snd (datagram_received (snd (req_with_resp_begin connected_light GetLabel StateLabel))
        \<lparr> msg_type = StateLabel, target_addr = ''d0:73:d5:01:0a:f3'', msg_source_id = 7,
          seq_num = 1, payload = [(''label'', str ''Kitchen'')], ack_requested = False,
          response_requested = False \<rparr>)) 1
   \<and> \<not> event_is_set
     (snd (datagram_received (snd (req_with_resp_begin connected_light GetLabel StateLabel))
        \<lparr> msg_type = StateLabel, target_addr = ''d0:73:d5:01:0a:f3'', msg_source_id = 8,
          seq_num = 1, payload = [(''label'', str ''Kitchen'')], ack_requested = False,
          response_requested = False \<rparr>)) 1"
proof -
  let ?S = "snd (req_with_resp_begin connected_light GetLabel StateLabel)"
  have h: "message ?S 1 = Some (StateLabel, Some False, None)"
    by (simp add: begin_connected_light)
  have s: "source_id ?S = 7"
    by (simp add: begin_connected_light)
  show ?thesis
    using datagram_received_release_iff [OF h,
      of "\<lparr> msg_type = StateLabel, target_addr = ''d0:73:d5:01:0a:f3'', msg_source_id = 7,
          seq_num = 1, payload = [(''label'', str ''Kitchen'')], ack_requested = False,
          response_requested = False \<rparr>"]
     datagram_received_release_iff [OF h,
      of "\<lparr> msg_type = StateLabel, target_addr = ''d0:73:d5:01:0a:f3'', msg_source_id = 8,
          seq_num = 1, payload = [(''label'', str ''Kitchen'')], ack_requested = False,
          response_requested = False \<rparr>"]
    by (simp only: s msg.simps) (simp add: event_is_set_def)
qed
subsection \<open>Renewing a session\<close>

lemma cleanup_eq:
  "cleanup s = s\<lparr>transport := None, task := None,
       effects := effects s @ (case transport s of Some tr \<Rightarrow> [TransportClose tr] | None \<Rightarrow> [])
                    @ (case task s of Some tk \<Rightarrow> [TaskCancel tk] | None \<Rightarrow> [])\<rparr>"
  by (cases "transport s"; cases "task s") (simp_all add: cleanup_def)

text \<open>
  C5, as amended. \<open>renew\<close> with an address or port that differs from the current one
  closes the transport and cancels the endpoint task (whichever exist), stores the new
  address and creates a fresh endpoint task for it, and schedules the metadata refresh.
  The table of outstanding requests is left as it was: the requests in flight are
  neither failed nor removed by \<open>renew\<close>, and a datagram received after it does
  to the table what it would have done before.
\<close>

theorem renew_new_address:
  assumes "ip_addr s \<noteq> ip \<or> port s \<noteq> p"
  shows "renew s fam ip p
         = s\<lparr>ip_addr := ip, port := p, transport := None, task := Some (fam, ip, p),
              effects := effects s
                @ (case transport s of Some tr \<Rightarrow> [TransportClose tr] | None \<Rightarrow> [])
                @ (case task s of Some tk \<Rightarrow> [TaskCancel tk] | None \<Rightarrow> [])
                @ [CreateDatagramEndpoint (fam, ip, p), CreateTaskAsyncRegister]\<rparr>
       \<and> message (renew s fam ip p) = message s
       \<and> message (snd (datagram_received (renew s fam ip p) response))
           = message (snd (datagram_received s response))"
  using assms
  by (auto simp: renew_def cleanup_eq register_def datagram_received_def split: option.splits)

theorem renew_new_address_witness:
  "effects (renew connected_light AF_INET ''10.0.0.9'' 56700)
     = [CreateDatagramEndpoint (AF_INET, ''10.0.0.5'', 56700), CreateTaskAsyncRegister,
        TransportClose (AF_INET, ''10.0.0.5'', 56700), TaskCancel (AF_INET, ''10.0.0.5'', 56700),
        CreateDatagramEndpoint (AF_INET, ''10.0.0.9'', 56700), CreateTaskAsyncRegister]
   \<and> transport (renew connected_light AF_INET ''10.0.0.9'' 56700) = None
   \<and> task (renew connected_light AF_INET ''10.0.0.9'' 56700) = Some (AF_INET, ''10.0.0.9'', 56700)"
  using renew_new_address [of connected_light "''10.0.0.9''" 56700 AF_INET]
  by (simp add: connected_light_eq)

text \<open>
  C5 as stated fails: a \<open>GetLabel\<close> request is in flight on sequence number 1 when the
  session is renewed for another address. Its entry is still in the table afterwards, and
  once the new endpoint is connected a matching reply sets its event and fills its slot:
  the request was not torn down and does not fail.
\<close>

theorem renew_keeps_outstanding_counterexample:
  "message (renew (snd (req_with_resp_begin connected_light GetLabel StateLabel))
              AF_INET ''10.0.0.9'' 56700) 1
     = Some (StateLabel, Some False, None)
   \<and> message
       (snd (datagram_received
          (connection_made
             (renew (snd (req_with_resp_begin connected_light GetLabel StateLabel))
                AF_INET ''10.0.0.9'' 56700)
             (AF_INET, ''10.0.0.9'', 56700))
          \<lparr> msg_type = StateLabel, target_addr = ''d0:73:d5:01:0a:f3'', msg_source_id = 7,
            seq_num = 1, payload = [(''label'', str ''Kitchen'')], ack_requested = False,
            response_requested = False \<rparr>)) 1
     = Some (StateLabel, Some True,
         Some \<lparr> msg_type = StateLabel, target_addr = ''d0:73:d5:01:0a:f3'', msg_source_id = 7,
            seq_num = 1, payload = [(''label'', str ''Kitchen'')], ack_requested = False,
            response_requested = False \<rparr>)"
  by (simp add: begin_connected_light renew_def cleanup_eq register_def
      connection_made_def datagram_received_def)

text \<open>
  C6. On a session that is alive (transport and endpoint task present), \<open>renew\<close> with
  the address and port it already has changes nothing but to schedule the metadata
  refresh: the transport is not closed, no endpoint task is created, and the table of
  outstanding requests is untouched. Doing it twice schedules two refreshes and no more.
\<close>

theorem renew_same_address:
  assumes "is_alive s" "ip_addr s = ip" "port s = p"
  shows "renew s fam ip p = s\<lparr>effects := effects s @ [CreateTaskAsyncRegister]\<rparr>
       \<and> renew (renew s fam ip p) fam ip p
           = s\<lparr>effects := effects s @ [CreateTaskAsyncRegister, CreateTaskAsyncRegister]\<rparr>"
  using assms by (auto simp: renew_def is_alive_def register_def split: if_splits)

theorem renew_same_address_witness:
  "renew (snd (req_with_resp_begin connected_light GetLabel StateLabel)) AF_INET ''10.0.0.5'' 56700
     = (snd (req_with_resp_begin connected_light GetLabel StateLabel))
         \<lparr>effects := effects (snd (req_with_resp_begin connected_light GetLabel StateLabel))
            @ [CreateTaskAsyncRegister]\<rparr>"
  using renew_same_address [of "snd (req_with_resp_begin connected_light GetLabel StateLabel)"
      "''10.0.0.5''" 56700 AF_INET]
  by (simp add: begin_connected_light is_alive_def)

subsection \<open>The discovery wake loop\<close>

text \<open>
  C7 does not hold of the code. With the default tuning (interval 180, step 5) and the
  countdown starting at 0, the wakes that broadcast a probe are wakes 0, 37 and 74, not
  0, 36 and 72: the wake that sends a probe resets the countdown without decrementing it,
  so a probe goes out every 37 wakes, which is every 185 seconds.
\<close>

theorem discover_probe_every_37_wakes:
  "probe_wakes 0 75 bound_discovery = [0, 37, 74]"
  by code_simp

subsection \<open>Collections of lights\<close>

lemma run_all_members: "map fst (fst (run_all fn ls w)) = ls"
proof (induction ls arbitrary: w)
  case Nil
  then show ?case by simp
next
  case (Cons l ls)
  obtain r w1 where f: "fn l w = (r, w1)" by (cases "fn l w")
  obtain rs w2 where g: "run_all fn ls w1 = (rs, w2)" by (cases "run_all fn ls w1")
  show ?case using Cons.IH [of w1] f g by simp
qed

lemma gather_run_all:
  assumes "\<forall>l \<in> set ls. \<forall>w e. fst (fn l w) = Some e \<longrightarrow> is_Exception e"
  shows "gather fn ls (w, lg)
         = (None, snd (run_all fn ls w), lg @ concat (map log_for (fst (run_all fn ls w))))"
  using assms
proof (induction ls arbitrary: w lg)
  case Nil
  then show ?case by simp
next
  case (Cons l ls)
  obtain r w1 where f: "fn l w = (r, w1)" by (cases "fn l w")
  have ok: "\<And>e. r = Some e \<Longrightarrow> is_Exception e"
    using Cons.prems f by (metis fst_conv list.set_intros(1))
  have rest: "\<forall>l \<in> set ls. \<forall>w e. fst (fn l w) = Some e \<longrightarrow> is_Exception e"
    using Cons.prems by simp
  have w: "wrapper fn l (w, lg) = (None, w1, lg @ log_for (l, r))"
    using f ok by (cases r) (auto simp: wrapper_def)
  show ?case
    using Cons.IH [OF rest, of w1 "lg @ log_for (l, r)"] f w
    by (simp split: prod.splits)
qed

text \<open>
  C8. Let every failure of the operation be an exception in Python's sense, an instance
  of \<open>Exception\<close> (\<open>LightOffline\<close> is one). Then \<open>do_for_every_light\<close> returns
  normally; the operation has been applied to every member of the collection, in order,
  whatever the other members did; a member that failed with \<open>LightOffline\<close> left one
  information line, a member that failed otherwise one line with the exception, and
  nothing else was logged.
\<close>

theorem do_for_every_light_isolates_failures:
  assumes "\<forall>l \<in> set (light_list self). \<forall>w e. fst (fn l w) = Some e \<longrightarrow> is_Exception e"
  shows "do_for_every_light self fn w
           = (None, snd (run_all fn (light_list self) w),
              concat (map log_for (fst (run_all fn (light_list self) w))))
       \<and> map fst (fst (run_all fn (light_list self) w)) = light_list self"
  using gather_run_all [OF assms, of w "[]"] run_all_members [of fn "light_list self" w]
  by (simp add: do_for_every_light_def)

theorem do_for_every_light_isolates_failures_witness:
  "do_for_every_light
     \<lparr> light_list = [Light ''d0:73:d5:00:00:01'' ''10.0.0.1'' 56700 7,
                      Light ''d0:73:d5:00:00:02'' ''10.0.0.2'' 56700 8,
                      Light ''d0:73:d5:00:00:03'' ''10.0.0.3'' 56700 9] \<rparr>
     (\<lambda>l w. (if ip_addr l = ''10.0.0.2'' then Some LightOffline else None, w @ [ip_addr l]))
     []
   = (None, [''10.0.0.1'', ''10.0.0.2'', ''10.0.0.3''], [InfoOffline ''d0:73:d5:00:00:02''])"
  using do_for_every_light_isolates_failures
    [of "\<lparr> light_list = [Light ''d0:73:d5:00:00:01'' ''10.0.0.1'' 56700 7,
                      Light ''d0:73:d5:00:00:02'' ''10.0.0.2'' 56700 8,
                      Light ''d0:73:d5:00:00:03'' ''10.0.0.3'' 56700 9] \<rparr>"
        "\<lambda>l w. (if ip_addr l = ''10.0.0.2'' then Some LightOffline else None, w @ [ip_addr l])"
        "[]"]
  by (simp add: Light_def lower_def is_Exception_def)

lemma get_by_label_is_get_by_group: "get_by_label self lb = get_by_group self lb"
  by (simp add: get_by_label_def get_by_group_def)

text \<open>
  C9 does not hold of the code: \<open>get_by_label\<close> compares the argument with the cached
  group. A light labelled Kitchen in the group Downstairs is not found under its label.
\<close>

theorem get_by_label_compares_group:
  "light_list (get_by_label
      \<lparr> light_list = [(Light ''d0:73:d5:01:0a:f3'' ''10.0.0.5'' 56700 7)
                         \<lparr> label := Some (str ''Kitchen''), group := Some (str ''Downstairs'') \<rparr>] \<rparr>
      (str ''Kitchen'')) = []"
  by (simp add: get_by_label_def get_clone_def Light_def lower_def str_def)

subsection \<open>Datagrams delivered during a wait\<close>

lemma datagram_received_frame:
  "snd (datagram_received s response) = s\<lparr>message := message (snd (datagram_received s response))\<rparr>"
  by (auto simp: datagram_received_def split: option.splits)

lemma deliver_Nil [simp]: "deliver s [] = s"
  by (simp add: deliver_def)

lemma deliver_Cons [simp]: "deliver s (x # xs) = deliver (snd (datagram_received s x)) xs"
  by (simp add: deliver_def)

lemma deliver_append [simp]: "deliver s (xs @ ys) = deliver (deliver s xs) ys"
  by (simp add: deliver_def)

lemma deliver_frame: "deliver s ds = s\<lparr>message := message (deliver s ds)\<rparr>"
proof (induction ds arbitrary: s)
  case Nil
  then show ?case by simp
next
  case (Cons x xs)
  have "deliver s (x # xs) = deliver (snd (datagram_received s x)) xs" by simp
  also have "\<dots> = (snd (datagram_received s x))\<lparr>message := message (deliver (snd (datagram_received s x)) xs)\<rparr>"
    by (rule Cons.IH)
  also have "\<dots> = s\<lparr>message := message (deliver (snd (datagram_received s x)) xs)\<rparr>"
    by (subst datagram_received_frame) simp
  finally show ?case by simp
qed

lemma deliver_fields [simp]:
  "transport (deliver s ds) = transport s"
  "task (deliver s ds) = task s"
  "effects (deliver s ds) = effects s"
  "source_id (deliver s ds) = source_id s"
  by (subst deliver_frame, simp)+

lemma datagram_received_other:
  assumes "message s k = Some (rt, ev, r)"
    and "\<not> (seq_num x = k \<and> msg_type x = rt \<and> msg_source_id x = source_id s)"
  shows "message (snd (datagram_received s x)) k = Some (rt, ev, r)"
  using assms by (auto simp: datagram_received_def split: option.splits)

lemma datagram_received_source_id [simp]:
  "source_id (snd (datagram_received s x)) = source_id s"
  by (subst datagram_received_frame) simp

lemma deliver_no_reply:
  assumes "message s k = Some (rt, ev, r)"
    and "\<forall>x \<in> set ds. \<not> (seq_num x = k \<and> msg_type x = rt \<and> msg_source_id x = source_id s)"
  shows "message (deliver s ds) k = Some (rt, ev, r)"
  using assms
proof (induction ds arbitrary: s)
  case Nil
  then show ?case by simp
next
  case (Cons x xs)
  have "message (snd (datagram_received s x)) k = Some (rt, ev, r)"
    using Cons.prems by (intro datagram_received_other) simp_all
  then show ?case using Cons by simp
qed

lemma datagram_received_shape:
  assumes "message s k = Some (rt, Some b, r)"
  shows "\<exists>b' r'. message (snd (datagram_received s x)) k = Some (rt, Some b', r')"
  using assms by (auto simp: datagram_received_def split: option.splits)

lemma deliver_shape:
  assumes "message s k = Some (rt, Some b, r)"
  shows "\<exists>b' r'. message (deliver s ds) k = Some (rt, Some b', r')"
  using assms
proof (induction ds arbitrary: s b r)
  case Nil
  then show ?case by simp
next
  case (Cons x xs)
  obtain b' r' where "message (snd (datagram_received s x)) k = Some (rt, Some b', r')"
    using datagram_received_shape [OF Cons.prems] by blast
  then show ?case using Cons.IH by simp
qed

lemma datagram_received_reply:
  assumes "message s k = Some (rt, Some b, r)"
    and "seq_num x = k" "msg_type x = rt" "msg_source_id x = source_id s"
  shows "message (snd (datagram_received s x)) k = Some (rt, Some True, Some x)"
  using assms by (auto simp: datagram_received_def split: option.splits)

lemma deliver_reply_last:
  assumes "message s k = Some (rt, Some b, r)"
    and "seq_num x = k" "msg_type x = rt" "msg_source_id x = source_id s"
    and "\<forall>y \<in> set ds2. \<not> (seq_num y = k \<and> msg_type y = rt \<and> msg_source_id y = source_id s)"
  shows "message (deliver s (ds1 @ x # ds2)) k = Some (rt, Some True, Some x)"
proof -
  obtain b' r' where a: "message (deliver s ds1) k = Some (rt, Some b', r')"
    using deliver_shape [OF assms(1)] by blast
  have "message (snd (datagram_received (deliver s ds1) x)) k = Some (rt, Some True, Some x)"
    using a assms(2-4) by (intro datagram_received_reply) simp_all
  then have "message (deliver (snd (datagram_received (deliver s ds1) x)) ds2) k
             = Some (rt, Some True, Some x)"
    using assms(5) by (intro deliver_no_reply) simp_all
  then show ?thesis by simp
qed

lemma send_attempt_ok:
  assumes "transport s = Some tr" "message s (seq_num m) = Some (rt, ev, r)"
  shows "send_attempt s m
         = (None, s\<lparr>message := (message s)(seq_num m \<mapsto> (rt, Some False, r)),
                     effects := effects s @ [Sendto tr m]\<rparr>)"
  using assms by (simp add: send_attempt_def)



lemma give_up_fields:
  assumes "transport s = Some tr"
  shows "transport (give_up s m n) = None"
    and "task (give_up s m n) = None"
    and "message (give_up s m n) (seq_num m) = None"
    and "effects (give_up s m n)
         = effects s @ [LogErrorUnreachable n, TransportClose tr]
             @ (case task s of Some tk \<Rightarrow> [TaskCancel tk] | None \<Rightarrow> [])"
  using assms by (auto simp: give_up_def cleanup_eq Let_def split: option.splits)

lemma give_up_entry: "message (give_up s m n) (seq_num m) = None"
  by (auto simp: give_up_def cleanup_eq Let_def)

lemma event_is_set_iff:
  "event_is_set s k \<longleftrightarrow> (\<exists>rt r. message s k = Some (rt, Some True, r))"
  by (auto simp: event_is_set_def split: option.splits bool.splits)

lemma wait_steps_datagrams_state:
  "snd (wait_steps s k own fired (map Datagram ds)) = deliver s ds"
  by (induction ds arbitrary: s own fired) simp_all

lemma accepted_entry:
  assumes "message s k = Some (rt, ev, r)"
  shows "(seq_num x = k \<and> accepted s x)
           \<longleftrightarrow> (seq_num x = k \<and> msg_type x = rt \<and> msg_source_id x = source_id s)"
  using assms by (auto simp: accepted_def)

lemma wait_steps_datagrams_fired:
  assumes "message s k = Some (rt, Some b, r)"
  shows "fst (wait_steps s k True fired (map Datagram ds))
         \<longleftrightarrow> fired \<or> (\<exists>x \<in> set ds. seq_num x = k \<and> msg_type x = rt \<and> msg_source_id x = source_id s)"
  using assms
proof (induction ds arbitrary: s fired b r)
  case Nil
  then show ?case by simp
next
  case (Cons x xs)
  obtain b' r' where e: "message (snd (datagram_received s x)) k = Some (rt, Some b', r')"
    using datagram_received_shape [OF Cons.prems] by blast
  have f: "fires s k (Datagram x)
           \<longleftrightarrow> (seq_num x = k \<and> msg_type x = rt \<and> msg_source_id x = source_id s)"
    using accepted_entry [OF Cons.prems] by simp
  show ?case
    using Cons.IH [OF e, of "fired \<or> fires s k (Datagram x)"] f by auto
qed

subsection \<open>The retry loop\<close>

lemma deliver_message_cong:
  assumes "message s' = message s" "source_id s' = source_id s"
  shows "message (deliver s' ds) = message (deliver s ds)"
  using assms
proof (induction ds arbitrary: s s')
  case Nil
  then show ?case by simp
next
  case (Cons x xs)
  have "message (snd (datagram_received s' x)) = message (snd (datagram_received s x))"
    using Cons.prems by (auto simp: datagram_received_def split: option.splits)
  moreover have "source_id (snd (datagram_received s' x)) = source_id (snd (datagram_received s x))"
    using Cons.prems by simp
  ultimately have "message (deliver (snd (datagram_received s' x)) xs)
                   = message (deliver (snd (datagram_received s x)) xs)"
    by (rule Cons.IH)
  then show ?case by simp
qed

lemma wait_for_datagrams_fields [simp]:
  "transport (snd (wait_for s t k (map Datagram ds))) = transport s"
  "task (snd (wait_for s t k (map Datagram ds))) = task s"
  "effects (snd (wait_for s t k (map Datagram ds))) = effects s @ [WaitFor t]"
  "source_id (snd (wait_for s t k (map Datagram ds))) = source_id s"
  by (simp_all add: wait_for_def wait_steps_datagrams_state)

lemma wait_for_datagrams_message:
  "message (snd (wait_for s t k (map Datagram ds))) = message (deliver s ds)"
  unfolding wait_for_def wait_steps_datagrams_state
  by (rule deliver_message_cong) simp_all

lemma wait_for_datagrams_fired:
  assumes "message s k = Some (rt, Some b, r)"
  shows "fst (wait_for s t k (map Datagram ds))
         \<longleftrightarrow> (\<exists>x \<in> set ds. seq_num x = k \<and> msg_type x = rt \<and> msg_source_id x = source_id s)"
  unfolding wait_for_def
  using wait_steps_datagrams_fired [of "s\<lparr>effects := effects s @ [WaitFor t]\<rparr>" k rt b r False ds] assms
  by simp

lemma env_head_datagrams:
  "(case map (map Datagram) denv of [] \<Rightarrow> [] | es # _ \<Rightarrow> es)
   = map Datagram (case denv of [] \<Rightarrow> [] | ds # _ \<Rightarrow> ds)"
  by (cases denv) simp_all

text \<open>A call that is alone with the datagrams: no reply, then a reply.\<close>

lemma try_loop_no_reply:
  assumes "transport s = Some tr" "message s (seq_num m) = Some (rt, ev, r0)"
    and "attempts < n" "\<forall>ds \<in> set denv. \<forall>x \<in> set ds. \<not> reply_to s m rt x"
  shows "fst (try_loop s m t n attempts (map (map Datagram) denv)) = Some LightOffline
       \<and> transport (snd (try_loop s m t n attempts (map (map Datagram) denv))) = None
       \<and> task (snd (try_loop s m t n attempts (map (map Datagram) denv))) = None
       \<and> message (snd (try_loop s m t n attempts (map (map Datagram) denv))) (seq_num m) = None
       \<and> effects (snd (try_loop s m t n attempts (map (map Datagram) denv)))
           = effects s @ concat (replicate (nat (n - attempts)) [Sendto tr m, WaitFor t])
               @ [LogErrorUnreachable n, TransportClose tr]
               @ (case task s of Some tk \<Rightarrow> [TaskCancel tk] | None \<Rightarrow> [])"
  using assms
proof (induction k \<equiv> "nat (n - attempts)" arbitrary: s attempts denv ev)
  case 0
  then show ?case by simp
next
  case (Suc k)
  define s2 where "s2 = s\<lparr>message := (message s)(seq_num m \<mapsto> (rt, Some False, r0)),
                     effects := effects s @ [Sendto tr m]\<rparr>"
  define ds0 where "ds0 = (case denv of [] \<Rightarrow> [] | ds # _ \<Rightarrow> ds)"
  define s3 where "s3 = snd (wait_for s2 t (seq_num m) (map Datagram ds0))"
  have sa: "send_attempt s m = (None, s2)"
    unfolding s2_def using Suc.prems(1,2) by (rule send_attempt_ok)
  have ds0: "\<forall>x \<in> set ds0. \<not> (seq_num x = seq_num m \<and> msg_type x = rt \<and> msg_source_id x = source_id s2)"
    using Suc.prems(4) by (cases denv) (auto simp: ds0_def s2_def reply_to_def)
  have e2: "message s2 (seq_num m) = Some (rt, Some False, r0)"
    by (simp add: s2_def)
  have f3: "transport s3 = Some tr" "task s3 = task s" "source_id s3 = source_id s"
    "effects s3 = effects s @ [Sendto tr m, WaitFor t]"
    using Suc.prems(1) by (simp_all add: s3_def s2_def)
  have m3: "message s3 (seq_num m) = Some (rt, Some False, r0)"
    unfolding s3_def wait_for_datagrams_message
    by (rule deliver_no_reply [OF e2 ds0])
  have nf: "\<not> fst (wait_for s2 t (seq_num m) (map Datagram ds0))"
    using wait_for_datagrams_fired [OF e2, of t ds0] ds0 by blast
  have w: "wait_for s2 t (seq_num m) (map Datagram ds0) = (False, s3)"
    using nf by (simp add: s3_def prod_eq_iff)
  have unf: "try_loop s m t n attempts (map (map Datagram) denv) =
      (if attempts + 1 \<ge> n then (Some LightOffline, give_up s3 m n)
       else try_loop s3 m t n (attempts + 1) (map (map Datagram) (tl denv)))"
    using Suc.prems(3) sa w
    by (subst try_loop.simps) (simp add: env_head_datagrams ds0_def map_tl)
  show ?case
  proof (cases "attempts + 1 \<ge> n")
    case True
    then have k: "nat (n - attempts) = 1" using Suc.prems(3) by simp
    show ?thesis
      using True unf give_up_fields [OF f3(1), of m n] f3 k by simp
  next
    case False
    have k: "k = nat (n - (attempts + 1))" using Suc.hyps(2) by simp
    have env': "\<forall>ds \<in> set (tl denv). \<forall>x \<in> set ds. \<not> reply_to s3 m rt x"
      using Suc.prems(4) f3(3) by (cases denv) (auto simp: reply_to_def)
    have lt: "attempts + 1 < n" using False by simp
    have rep: "nat (n - attempts) = Suc (nat (n - (attempts + 1)))"
      using lt by simp
    show ?thesis
      using Suc.hyps(1) [OF k f3(1) m3 lt env'] unf False f3 rep by simp
  qed
qed

lemma try_loop_reply:
  assumes "transport s = Some tr" "message s (seq_num m) = Some (rt, ev, r0)"
    and "attempts + int (length pre) < n"
    and "\<forall>ds \<in> set pre. \<forall>y \<in> set ds. \<not> reply_to s m rt y"
    and "reply_to s m rt x" "\<forall>y \<in> set ds2. \<not> reply_to s m rt y"
  shows "fst (try_loop s m t n attempts (map (map Datagram) (pre @ (ds1 @ x # ds2) # rest))) = None
       \<and> message (snd (try_loop s m t n attempts (map (map Datagram) (pre @ (ds1 @ x # ds2) # rest))))
           (seq_num m) = Some (rt, Some True, Some x)
       \<and> transport (snd (try_loop s m t n attempts (map (map Datagram) (pre @ (ds1 @ x # ds2) # rest))))
           = Some tr
       \<and> task (snd (try_loop s m t n attempts (map (map Datagram) (pre @ (ds1 @ x # ds2) # rest))))
           = task s
       \<and> effects (snd (try_loop s m t n attempts (map (map Datagram) (pre @ (ds1 @ x # ds2) # rest))))
           = effects s @ concat (replicate (Suc (length pre)) [Sendto tr m, WaitFor t])"
  using assms
proof (induction pre arbitrary: s attempts ev)
  case Nil
  define s2 where "s2 = s\<lparr>message := (message s)(seq_num m \<mapsto> (rt, Some False, r0)),
                     effects := effects s @ [Sendto tr m]\<rparr>"
  define s3 where "s3 = snd (wait_for s2 t (seq_num m) (map Datagram (ds1 @ x # ds2)))"
  have sa: "send_attempt s m = (None, s2)"
    unfolding s2_def using Nil.prems(1,2) by (rule send_attempt_ok)
  have e2: "message s2 (seq_num m) = Some (rt, Some False, r0)"
    by (simp add: s2_def)
  have f3: "transport s3 = Some tr" "task s3 = task s"
    "effects s3 = effects s @ [Sendto tr m, WaitFor t]"
    unfolding s3_def wait_for_datagrams_fields using Nil.prems(1) by (simp_all add: s2_def)
  have m3: "message s3 (seq_num m) = Some (rt, Some True, Some x)"
    unfolding s3_def wait_for_datagrams_message
    using Nil.prems(5,6)
    by (intro deliver_reply_last [where b = False and r = r0]) (simp_all add: s2_def reply_to_def)
  have "fst (wait_for s2 t (seq_num m) (map Datagram (ds1 @ x # ds2)))"
    using wait_for_datagrams_fired [OF e2, of t "ds1 @ x # ds2"] Nil.prems(5)
    by (auto simp: reply_to_def s2_def)
  then have w: "wait_for s2 t (seq_num m) (map Datagram (ds1 @ x # ds2)) = (True, s3)"
    by (simp add: s3_def prod_eq_iff)
  have "try_loop s m t n attempts (map (map Datagram) ((ds1 @ x # ds2) # rest)) = (None, s3)"
    using Nil.prems(3) sa w by (subst try_loop.simps) simp
  then show ?case using f3 m3 by simp
next
  case (Cons d pre)
  define s2 where "s2 = s\<lparr>message := (message s)(seq_num m \<mapsto> (rt, Some False, r0)),
                     effects := effects s @ [Sendto tr m]\<rparr>"
  define s3 where "s3 = snd (wait_for s2 t (seq_num m) (map Datagram d))"
  have sa: "send_attempt s m = (None, s2)"
    unfolding s2_def using Cons.prems(1,2) by (rule send_attempt_ok)
  have e2: "message s2 (seq_num m) = Some (rt, Some False, r0)"
    by (simp add: s2_def)
  have d: "\<forall>y \<in> set d. \<not> (seq_num y = seq_num m \<and> msg_type y = rt \<and> msg_source_id y = source_id s2)"
    using Cons.prems(4) by (auto simp: s2_def reply_to_def)
  have f3: "transport s3 = Some tr" "task s3 = task s" "source_id s3 = source_id s"
    "effects s3 = effects s @ [Sendto tr m, WaitFor t]"
    using Cons.prems(1) by (simp_all add: s3_def s2_def)
  have m3: "message s3 (seq_num m) = Some (rt, Some False, r0)"
    unfolding s3_def wait_for_datagrams_message
    by (rule deliver_no_reply [OF e2 d])
  have nf: "\<not> fst (wait_for s2 t (seq_num m) (map Datagram d))"
    using wait_for_datagrams_fired [OF e2, of t d] d by blast
  have w: "wait_for s2 t (seq_num m) (map Datagram d) = (False, s3)"
    using nf by (simp add: s3_def prod_eq_iff)
  have lt: "attempts + 1 + int (length pre) < n" "attempts < n" "\<not> n \<le> attempts + 1"
    using Cons.prems(3) by simp_all
  have unf: "try_loop s m t n attempts (map (map Datagram) ((d # pre) @ (ds1 @ x # ds2) # rest))
             = try_loop s3 m t n (attempts + 1) (map (map Datagram) (pre @ (ds1 @ x # ds2) # rest))"
    using lt sa w by (subst try_loop.simps) simp
  have p: "\<forall>ds \<in> set pre. \<forall>y \<in> set ds. \<not> reply_to s3 m rt y"
    "reply_to s3 m rt x" "\<forall>y \<in> set ds2. \<not> reply_to s3 m rt y"
    using Cons.prems(4,5,6) f3(3) by (auto simp: reply_to_def)
  show ?case
    using Cons.IH [OF f3(1) m3 lt(1) p] unf f3 by simp
qed

text \<open>Whatever the environment does.\<close>

lemma send_attempt_cases:
  "(\<exists>e. send_attempt s m = (Some e, s) \<and> e = RuntimeError \<and> message s (seq_num m) = None)
   \<or> (\<exists>rt ev r. send_attempt s m
            = (Some AttributeError, s\<lparr>message := (message s)(seq_num m \<mapsto> (rt, Some False, r))\<rparr>)
        \<and> transport s = None)
   \<or> (\<exists>tr rt ev r. transport s = Some tr \<and> message s (seq_num m) = Some (rt, ev, r)
        \<and> send_attempt s m
            = (None, s\<lparr>message := (message s)(seq_num m \<mapsto> (rt, Some False, r)),
                       effects := effects s @ [Sendto tr m]\<rparr>))"
  by (cases "message s (seq_num m)"; cases "transport s") (auto simp: send_attempt_def)

lemma send_attempt_effects: "\<exists>es. effects (snd (send_attempt s m)) = effects s @ es"
  using send_attempt_cases [of s m] by auto

lemma give_up_effects: "\<exists>es. effects (give_up s m n) = effects s @ es"
  by (cases "transport s"; cases "task s") (auto simp: give_up_def cleanup_eq Let_def)

lemma request_begin_effects: "\<exists>es. effects (snd (request_begin s rq)) = effects s @ es"
proof -
  define s1 where "s1 = s\<lparr>seq := (seq s + 1) mod 128\<rparr>"
  define m where "m = request_msg s1 rq ((seq s + 1) mod 128)"
  define s2 where "s2 = new_entry s1 m (request_response_type rq)"
  have e2: "effects s2 = effects s" by (simp add: s2_def s1_def new_entry_def)
  obtain es where es: "effects (snd (send_attempt s2 m)) = effects s2 @ es"
    using send_attempt_effects by blast
  have "snd (request_begin s rq) = s1 \<or> snd (request_begin s rq) = snd (send_attempt s2 m)
        \<or> snd (request_begin s rq) = s2\<lparr>message := (message s2)(seq_num m := None)\<rparr>"
    unfolding request_begin_def seq_next_def Let_def prod.case s1_def [symmetric] m_def [symmetric]
      s2_def [symmetric]
    by (auto split: prod.splits option.splits)
  then show ?thesis using es e2 by (auto simp: s1_def)
qed

lemma renew_effects: "\<exists>es. effects (renew s fam ip p) = effects s @ es"
  by (auto simp: renew_def cleanup_eq register_def Let_def)

lemma step_apply_effects: "\<exists>es. effects (step_apply s e) = effects s @ es"
proof (cases e)
  case (Datagram r)
  have "effects (snd (datagram_received s r)) = effects s"
    by (subst datagram_received_frame) simp
  then show ?thesis using Datagram by simp
next
  case (Begin rq)
  then show ?thesis using request_begin_effects by simp
next
  case (Resend m)
  then show ?thesis using send_attempt_effects by simp
next
  case (GiveUp m n)
  then show ?thesis using give_up_effects by simp
next
  case (Renew fam ip p)
  then show ?thesis using renew_effects by simp
next
  case Cleanup
  then show ?thesis by (simp add: cleanup_eq)
qed (simp_all add: connection_made_def)

lemma wait_steps_effects: "\<exists>es. effects (snd (wait_steps s k own fired steps)) = effects s @ es"
proof (induction steps arbitrary: s own fired)
  case Nil
  then show ?case by simp
next
  case (Cons e steps)
  obtain es1 where a: "effects (step_apply s e) = effects s @ es1"
    using step_apply_effects by blast
  obtain es2 where
    "effects (snd (wait_steps (step_apply s e) k (own \<and> \<not> displaces s k e)
        (fired \<or> (own \<and> fires s k e)) steps)) = effects (step_apply s e) @ es2"
    using Cons.IH by blast
  then show ?case using a by simp
qed

lemma wait_for_effects:
  "\<exists>es. effects (snd (wait_for s t k steps)) = effects s @ WaitFor t # es"
  using wait_steps_effects [of "s\<lparr>effects := effects s @ [WaitFor t]\<rparr>" k True False steps]
  by (auto simp: wait_for_def)

lemma try_loop_effects: "\<exists>es. effects (snd (try_loop s m t n attempts env)) = effects s @ es"
proof (induction k \<equiv> "nat (n - attempts)" arbitrary: s attempts env)
  case 0
  then have "\<not> attempts < n" by simp
  then have "try_loop s m t n attempts env = (None, s)"
    by (subst try_loop.simps) simp
  then show ?case by simp
next
  case (Suc k)
  then have lt: "attempts < n" by simp
  obtain r s2 where sa: "send_attempt s m = (r, s2)" by (cases "send_attempt s m")
  obtain es2 where e2: "effects s2 = effects s @ es2"
    using send_attempt_effects [of s m] sa by auto
  show ?case
  proof (cases r)
    case (Some e)
    then have "try_loop s m t n attempts env = (Some e, s2)"
      using lt sa by (subst try_loop.simps) simp
    then show ?thesis using e2 by simp
  next
    case None
    obtain fired s3 where w:
      "wait_for s2 t (seq_num m) (case env of [] \<Rightarrow> [] | es # _ \<Rightarrow> es) = (fired, s3)"
      by (cases "wait_for s2 t (seq_num m) (case env of [] \<Rightarrow> [] | es # _ \<Rightarrow> es)")
    obtain es3 where e3: "effects s3 = effects s2 @ WaitFor t # es3"
      using wait_for_effects [of s2 t "seq_num m" "case env of [] \<Rightarrow> [] | es # _ \<Rightarrow> es"] w by auto
    have unf: "try_loop s m t n attempts env =
      (if fired then (None, s3)
       else if attempts + 1 \<ge> n then (Some LightOffline, give_up s3 m n)
       else try_loop s3 m t n (attempts + 1) (tl env))"
      using lt sa None w by (subst try_loop.simps) simp
    have k: "k = nat (n - (attempts + 1))" using Suc.hyps(2) by simp
    obtain es4 where e4: "effects (give_up s3 m n) = effects s3 @ es4"
      using give_up_effects by blast
    obtain es5 where e5:
      "effects (snd (try_loop s3 m t n (attempts + 1) (tl env))) = effects s3 @ es5"
      using Suc.hyps(1) [OF k] by blast
    show ?thesis
      using unf e2 e3 e4 e5 by auto
  qed
qed

lemma try_loop_first_send:
  assumes "transport s = Some tr" "message s (seq_num m) = Some (rt, ev, r0)" "attempts < n"
  shows "\<exists>es. effects (snd (try_loop s m t n attempts env))
                = effects s @ Sendto tr m # WaitFor t # es"
proof -
  define s2 where "s2 = s\<lparr>message := (message s)(seq_num m \<mapsto> (rt, Some False, r0)),
                     effects := effects s @ [Sendto tr m]\<rparr>"
  have sa: "send_attempt s m = (None, s2)"
    unfolding s2_def using assms(1,2) by (rule send_attempt_ok)
  obtain fired s3 where w:
    "wait_for s2 t (seq_num m) (case env of [] \<Rightarrow> [] | es # _ \<Rightarrow> es) = (fired, s3)"
    by (cases "wait_for s2 t (seq_num m) (case env of [] \<Rightarrow> [] | es # _ \<Rightarrow> es)")
  obtain es3 where e3: "effects s3 = effects s2 @ WaitFor t # es3"
    using wait_for_effects [of s2 t "seq_num m" "case env of [] \<Rightarrow> [] | es # _ \<Rightarrow> es"] w by auto
  have unf: "try_loop s m t n attempts env =
    (if fired then (None, s3)
     else if attempts + 1 \<ge> n then (Some LightOffline, give_up s3 m n)
     else try_loop s3 m t n (attempts + 1) (tl env))"
    using assms(3) sa w by (subst try_loop.simps) simp
  obtain es4 where e4: "effects (give_up s3 m n) = effects s3 @ es4"
    using give_up_effects by blast
  obtain es5 where e5:
    "effects (snd (try_loop s3 m t n (attempts + 1) (tl env))) = effects s3 @ es5"
    using try_loop_effects by blast
  show ?thesis
    using unf e3 e4 e5 by (auto simp: s2_def)
qed

lemma try_loop_error_entry:
  assumes "fst (try_loop s m t n attempts env) = Some e" "e \<noteq> AttributeError"
  shows "message (snd (try_loop s m t n attempts env)) (seq_num m) = None"
  using assms
proof (induction k \<equiv> "nat (n - attempts)" arbitrary: s attempts env)
  case 0
  then have "\<not> attempts < n" by simp
  then have "try_loop s m t n attempts env = (None, s)"
    by (subst try_loop.simps) simp
  then show ?case using "0.prems" by simp
next
  case (Suc k)
  then have lt: "attempts < n" by simp
  consider (absent) "send_attempt s m = (Some RuntimeError, s)" "message s (seq_num m) = None"
    | (crash) s1 where "send_attempt s m = (Some AttributeError, s1)"
    | (ok) s2 where "send_attempt s m = (None, s2)"
    using send_attempt_cases [of s m] by auto
  then show ?case
  proof cases
    case absent
    then have "try_loop s m t n attempts env = (Some RuntimeError, s)"
      using lt by (subst try_loop.simps) simp
    then show ?thesis using absent by simp
  next
    case crash
    then have "try_loop s m t n attempts env = (Some AttributeError, s1)"
      using lt by (subst try_loop.simps) simp
    then show ?thesis using Suc.prems by simp
  next
    case ok
    obtain fired s3 where w:
      "wait_for s2 t (seq_num m) (case env of [] \<Rightarrow> [] | es # _ \<Rightarrow> es) = (fired, s3)"
      by (cases "wait_for s2 t (seq_num m) (case env of [] \<Rightarrow> [] | es # _ \<Rightarrow> es)")
    have unf: "try_loop s m t n attempts env =
      (if fired then (None, s3)
       else if attempts + 1 \<ge> n then (Some LightOffline, give_up s3 m n)
       else try_loop s3 m t n (attempts + 1) (tl env))"
      using lt ok w by (subst try_loop.simps) simp
    have k: "k = nat (n - (attempts + 1))" using Suc.hyps(2) by simp
    show ?thesis
    proof (cases fired)
      case True
      then show ?thesis using unf Suc.prems by simp
    next
      case False
      show ?thesis
      proof (cases "attempts + 1 \<ge> n")
        case True
        then show ?thesis using unf False give_up_entry by simp
      next
        case ge: False
        have "fst (try_loop s3 m t n (attempts + 1) (tl env)) = Some e"
          using Suc.prems(1) unf False ge by simp
        then show ?thesis
          using Suc.hyps(1) [OF k _ Suc.prems(2), of s3 "tl env"] unf False ge by simp
      qed
    qed
  qed
qed

lemma try_sending_unfold:
  assumes "transport s \<noteq> None"
  shows "try_sending s m rt timeout_secs max_attempts env
      = (case try_loop (new_entry s m rt) m
                (case timeout_secs of None \<Rightarrow> timeout s | Some t' \<Rightarrow> t')
                (case max_attempts of None \<Rightarrow> retry_count s | Some n' \<Rightarrow> n') 0 env of
           (Some e, s2) \<Rightarrow> (Inl e, s2)
         | (None, s2) \<Rightarrow>
             (case message s2 (seq_num m) of
                None \<Rightarrow> (Inl KeyError, s2)
              | Some (_, _, r) \<Rightarrow> (Inr r, s2\<lparr>message := (message s2)(seq_num m := None)\<rparr>)))"
proof -
  have "(case timeout_secs of None \<Rightarrow> timeout (new_entry s m rt) | Some t' \<Rightarrow> t')
        = (case timeout_secs of None \<Rightarrow> timeout s | Some t' \<Rightarrow> t')"
    by (cases timeout_secs) (simp_all add: new_entry_def)
  moreover have "(case max_attempts of None \<Rightarrow> retry_count (new_entry s m rt) | Some n' \<Rightarrow> n')
        = (case max_attempts of None \<Rightarrow> retry_count s | Some n' \<Rightarrow> n')"
    by (cases max_attempts) (simp_all add: new_entry_def)
  moreover obtain tr where "transport s = Some tr"
    using assms by auto
  ultimately show ?thesis
    unfolding try_sending_def Let_def by simp
qed

lemma try_sending_removes_entry:
  assumes "(\<exists>r. fst (try_sending s m rt timeout_secs max_attempts env) = Inr r)
           \<or> fst (try_sending s m rt timeout_secs max_attempts env) = Inl LightOffline"
  shows "message (snd (try_sending s m rt timeout_secs max_attempts env)) (seq_num m) = None"
proof (cases "transport s")
  case None
  then show ?thesis using assms by (simp add: try_sending_def)
next
  case (Some tr)
  define t where "t = (case timeout_secs of None \<Rightarrow> timeout s | Some t' \<Rightarrow> t')"
  define n where "n = (case max_attempts of None \<Rightarrow> retry_count s | Some n' \<Rightarrow> n')"
  obtain r s2 where l: "try_loop (new_entry s m rt) m t n 0 env = (r, s2)"
    by (cases "try_loop (new_entry s m rt) m t n 0 env")
  have u: "try_sending s m rt timeout_secs max_attempts env
      = (case r of Some e \<Rightarrow> (Inl e, s2)
         | None \<Rightarrow>
             (case message s2 (seq_num m) of
                None \<Rightarrow> (Inl KeyError, s2)
              | Some (_, _, r) \<Rightarrow> (Inr r, s2\<lparr>message := (message s2)(seq_num m := None)\<rparr>)))"
    using try_sending_unfold [of s m rt timeout_secs max_attempts env] Some l
    by (simp add: t_def n_def split: option.splits)
  show ?thesis
  proof (cases r)
    case None
    then show ?thesis using u by (auto split: option.splits)
  next
    case (Some e)
    then have "e = LightOffline" using u assms by auto
    then have "message s2 (seq_num m) = None"
      using try_loop_error_entry [of "new_entry s m rt" m t n 0 env e] l Some by simp
    then show ?thesis using u Some by simp
  qed
qed

lemma waiting_light_eq:
  "waiting_light =
      \<lparr> mac_addr = ''d0:73:d5:01:0a:f3'', ip_addr = ''10.0.0.5'', port = 56700,
        retry_count = 3, timeout = 1 / 2,
        transport = Some (AF_INET, ''10.0.0.5'', 56700), task = Some (AF_INET, ''10.0.0.5'', 56700),
        seq = 1, message = [1 \<mapsto> (StateLabel, Some False, None)], source_id = 7,
        label = None, group = None,
        effects = [CreateDatagramEndpoint (AF_INET, ''10.0.0.5'', 56700), CreateTaskAsyncRegister,
          Sendto (AF_INET, ''10.0.0.5'', 56700) label_request,
          Sendto (AF_INET, ''10.0.0.5'', 56700) label_request] \<rparr>"
  by (simp add: waiting_light_def begin_connected_light send_attempt_def label_request_def)


lemma try_sending_no_reply:
  assumes "transport s = Some tr"
    and "t = (case timeout_secs of None \<Rightarrow> timeout s | Some t' \<Rightarrow> t')"
    and "n = (case max_attempts of None \<Rightarrow> retry_count s | Some n' \<Rightarrow> n')"
    and "0 < n"
    and "\<forall>ds \<in> set denv. \<forall>x \<in> set ds. \<not> reply_to s m rt x"
  shows "fst (try_sending s m rt timeout_secs max_attempts (map (map Datagram) denv)) = Inl LightOffline
       \<and> effects (snd (try_sending s m rt timeout_secs max_attempts (map (map Datagram) denv)))
           = effects s @ concat (replicate (nat n) [Sendto tr m, WaitFor t])
               @ [LogErrorUnreachable n, TransportClose tr]
               @ (case task s of Some tk \<Rightarrow> [TaskCancel tk] | None \<Rightarrow> [])
       \<and> transport (snd (try_sending s m rt timeout_secs max_attempts (map (map Datagram) denv))) = None
       \<and> task (snd (try_sending s m rt timeout_secs max_attempts (map (map Datagram) denv))) = None
       \<and> message (snd (try_sending s m rt timeout_secs max_attempts (map (map Datagram) denv)))
           (seq_num m) = None"
proof -
  define s1 where "s1 = new_entry s m rt"
  define env where "env = map (map Datagram) denv"
  have a: "transport s1 = Some tr" "message s1 (seq_num m) = Some (rt, None, None)"
    "effects s1 = effects s" "task s1 = task s"
    using assms(1) by (simp_all add: s1_def new_entry_def)
  have e: "\<forall>ds \<in> set denv. \<forall>x \<in> set ds. \<not> reply_to s1 m rt x"
    using assms(5) by (simp add: reply_to_def s1_def new_entry_def)
  obtain r s2 where l: "try_loop s1 m t n 0 env = (r, s2)"
    by (cases "try_loop s1 m t n 0 env")
  have "r = Some LightOffline \<and> transport s2 = None \<and> task s2 = None
        \<and> message s2 (seq_num m) = None
        \<and> effects s2 = effects s1 @ concat (replicate (nat (n - 0)) [Sendto tr m, WaitFor t])
            @ [LogErrorUnreachable n, TransportClose tr]
            @ (case task s1 of Some tk \<Rightarrow> [TaskCancel tk] | None \<Rightarrow> [])"
    using try_loop_no_reply [OF a(1,2) assms(4) e, of t] l by (simp add: env_def)
  moreover have "try_sending s m rt timeout_secs max_attempts env
      = (case try_loop s1 m t n 0 env of
           (Some e, s2) \<Rightarrow> (Inl e, s2)
         | (None, s2) \<Rightarrow>
             (case message s2 (seq_num m) of
                None \<Rightarrow> (Inl KeyError, s2)
              | Some (_, _, r) \<Rightarrow> (Inr r, s2\<lparr>message := (message s2)(seq_num m := None)\<rparr>)))"
    using try_sending_unfold [of s m rt timeout_secs max_attempts env] assms(1,2,3)
    by (simp add: s1_def)
  ultimately show ?thesis using l a unfolding env_def [symmetric] by simp
qed

lemma try_sending_reply:
  assumes "transport s = Some tr"
    and "t = (case timeout_secs of None \<Rightarrow> timeout s | Some t' \<Rightarrow> t')"
    and "n = (case max_attempts of None \<Rightarrow> retry_count s | Some n' \<Rightarrow> n')"
    and "int (length pre) < n"
    and "\<forall>ds \<in> set pre. \<forall>y \<in> set ds. \<not> reply_to s m rt y"
    and "reply_to s m rt x" "\<forall>y \<in> set ds2. \<not> reply_to s m rt y"
    and "env = map (map Datagram) (pre @ (ds1 @ x # ds2) # rest)"
  shows "fst (try_sending s m rt timeout_secs max_attempts env) = Inr (Some x)
       \<and> effects (snd (try_sending s m rt timeout_secs max_attempts env))
           = effects s @ concat (replicate (Suc (length pre)) [Sendto tr m, WaitFor t])
       \<and> transport (snd (try_sending s m rt timeout_secs max_attempts env)) = Some tr
       \<and> task (snd (try_sending s m rt timeout_secs max_attempts env)) = task s
       \<and> message (snd (try_sending s m rt timeout_secs max_attempts env)) (seq_num m) = None"
proof -
  define s1 where "s1 = new_entry s m rt"
  have a: "transport s1 = Some tr" "message s1 (seq_num m) = Some (rt, None, None)"
    "effects s1 = effects s" "task s1 = task s"
    using assms(1) by (simp_all add: s1_def new_entry_def)
  have e: "\<forall>ds \<in> set pre. \<forall>y \<in> set ds. \<not> reply_to s1 m rt y"
    "reply_to s1 m rt x" "\<forall>y \<in> set ds2. \<not> reply_to s1 m rt y"
    using assms(5,6,7) by (simp_all add: reply_to_def s1_def new_entry_def)
  obtain r s2 where l: "try_loop s1 m t n 0 env = (r, s2)"
    by (cases "try_loop s1 m t n 0 env")
  have lt: "0 + int (length pre) < n" using assms(4) by simp
  have "r = None \<and> message s2 (seq_num m) = Some (rt, Some True, Some x)
        \<and> transport s2 = Some tr \<and> task s2 = task s1
        \<and> effects s2 = effects s1 @ concat (replicate (Suc (length pre)) [Sendto tr m, WaitFor t])"
    using try_loop_reply [OF a(1,2) lt e, of t ds1 rest] l unfolding assms(8) by simp
  moreover have "try_sending s m rt timeout_secs max_attempts env
      = (case try_loop s1 m t n 0 env of
           (Some e, s2) \<Rightarrow> (Inl e, s2)
         | (None, s2) \<Rightarrow>
             (case message s2 (seq_num m) of
                None \<Rightarrow> (Inl KeyError, s2)
              | Some (_, _, r) \<Rightarrow> (Inr r, s2\<lparr>message := (message s2)(seq_num m := None)\<rparr>)))"
    using try_sending_unfold [of s m rt timeout_secs max_attempts env] assms(1,2,3)
    by (simp add: s1_def)
  ultimately show ?thesis using l a by simp
qed

lemma try_sending_first_send:
  assumes "transport s = Some tr"
    and "t = (case timeout_secs of None \<Rightarrow> timeout s | Some t' \<Rightarrow> t')"
    and "n = (case max_attempts of None \<Rightarrow> retry_count s | Some n' \<Rightarrow> n')"
    and "0 < n"
  shows "\<exists>es. effects (snd (try_sending s m rt timeout_secs max_attempts env))
               = effects s @ Sendto tr m # WaitFor t # es"
proof -
  define s1 where "s1 = new_entry s m rt"
  have a: "transport s1 = Some tr" "message s1 (seq_num m) = Some (rt, None, None)"
    "effects s1 = effects s"
    using assms(1) by (simp_all add: s1_def new_entry_def)
  obtain r s2 where l: "try_loop s1 m t n 0 env = (r, s2)"
    by (cases "try_loop s1 m t n 0 env")
  obtain es where es: "effects s2 = effects s1 @ Sendto tr m # WaitFor t # es"
    using try_loop_first_send [OF a(1,2) assms(4), of t env] l by auto
  have "effects (snd (try_sending s m rt timeout_secs max_attempts env)) = effects s2"
    using try_sending_unfold [of s m rt timeout_secs max_attempts env] assms(1,2,3) l
    by (auto simp: s1_def split: option.splits)
  then show ?thesis using es a by simp
qed

text \<open>With no attempt allowed the loop does not run: nothing is sent, nothing raised,
  and the call returns \<open>None\<close>.\<close>

lemma try_sending_no_attempts:
  assumes "transport s \<noteq> None"
    and "(case max_attempts of None \<Rightarrow> retry_count s | Some n' \<Rightarrow> n') \<le> 0"
  shows "try_sending s m rt timeout_secs max_attempts env
         = (Inr None, s\<lparr>message := (message s)(seq_num m := None)\<rparr>)"
proof -
  define t where "t = (case timeout_secs of None \<Rightarrow> timeout s | Some t' \<Rightarrow> t')"
  define n where "n = (case max_attempts of None \<Rightarrow> retry_count s | Some n' \<Rightarrow> n')"
  have "n \<le> 0" using assms(2) by (simp add: n_def)
  then have "try_loop (new_entry s m rt) m t n 0 env = (None, new_entry s m rt)"
    by (subst try_loop.simps) simp
  then show ?thesis
    using try_sending_unfold [OF assms(1), of m rt timeout_secs max_attempts env]
    by (simp add: t_def n_def new_entry_def)
qed


subsection \<open>A call overlapping one that gives up\<close>

text \<open>
  C2 does not hold of the code. A \<open>GetLabel\<close> request is in flight on an unreachable
  light and has been sent twice when a \<open>GetGroup\<close> request begins. During the second
  request's first wait the first is sent a third time; during its second wait the first
  gives up and runs \<open>cleanup\<close>. The second request, with one attempt left, then calls
  \<open>sendto\<close> on a transport that is \<open>None\<close>: it raises \<open>AttributeError\<close>, not
  \<open>LightOffline\<close>, after two transmissions, not three, and its entry stays in the
  table.
\<close>

theorem try_sending_crashes_after_cleanup:
  "fst (req_with_resp waiting_light GetGroup StateGroup None None None
          [[Resend label_request], [GiveUp label_request 3]]) = Inl AttributeError
   \<and> effects (snd (req_with_resp waiting_light GetGroup StateGroup None None None
          [[Resend label_request], [GiveUp label_request 3]]))
       = effects waiting_light @
         [Sendto (AF_INET, ''10.0.0.5'', 56700)
            \<lparr> msg_type = GetGroup, target_addr = ''d0:73:d5:01:0a:f3'', msg_source_id = 7,
              seq_num = 2, payload = [], ack_requested = False, response_requested = True \<rparr>,
          WaitFor (1 / 2),
          Sendto (AF_INET, ''10.0.0.5'', 56700) label_request,
          Sendto (AF_INET, ''10.0.0.5'', 56700)
            \<lparr> msg_type = GetGroup, target_addr = ''d0:73:d5:01:0a:f3'', msg_source_id = 7,
              seq_num = 2, payload = [], ack_requested = False, response_requested = True \<rparr>,
          WaitFor (1 / 2),
          LogErrorUnreachable 3,
          TransportClose (AF_INET, ''10.0.0.5'', 56700),
          TaskCancel (AF_INET, ''10.0.0.5'', 56700)]
   \<and> message (snd (req_with_resp waiting_light GetGroup StateGroup None None None
          [[Resend label_request], [GiveUp label_request 3]])) 2
       = Some (StateGroup, Some False, None)"
  by (simp add: waiting_light_eq req_with_resp_def seq_next_def make_msg_def try_sending_def
      new_entry_def try_loop.simps send_attempt_def wait_for_def give_up_def cleanup_def
      label_request_def Let_def)

subsection \<open>Setting the label\<close>

lemma req_with_ack_eq:
  "req_with_ack s mt pl timeout_secs max_attempts env
   = try_sending (s\<lparr>seq := (seq s + 1) mod 128\<rparr>)
       (make_msg (s\<lparr>seq := (seq s + 1) mod 128\<rparr>) mt ((seq s + 1) mod 128) pl True False)
       Acknowledgement timeout_secs max_attempts env"
  by (simp add: req_with_ack_def seq_next_def Let_def)

lemma set_label_eq:
  "set_label s val env
   = (case try_sending (s\<lparr>seq := (seq s + 1) mod 128\<rparr>)
             (make_msg s SetLabel ((seq s + 1) mod 128)
                [(''label'', if 32 < length val then take 32 val else val)] True False)
             Acknowledgement None None env of
        (Inl e, s1) \<Rightarrow> (Inl e, s1)
      | (Inr _, s1) \<Rightarrow>
          (Inr (), s1\<lparr>label := Some (if 32 < length val then take 32 val else val)\<rparr>))"
  unfolding set_label_def Let_def req_with_ack_eq by (simp add: make_msg_def)

text \<open>
  C10. On a session with a transport and a positive retry count, \<open>set_label\<close> first
  hands to the transport a \<open>SetLabel\<close> message, flagged for acknowledgement, whose
  label is the value cut to its first 32 characters when it is longer than 32 and the
  value itself otherwise, and waits for the acknowledgement. When an acknowledgement
  arrives during one of the waits, the call returns normally, every message it has sent
  is that same message, and the cached label is the cut value; when none ever arrives,
  the call sends that same message \<open>retry_count\<close> times and raises
  \<open>LightOffline\<close>. Whatever else happens on the session in the meantime, a call that
  returns normally leaves the cut value as the cached label.
\<close>

theorem set_label_truncates:
  assumes "transport s = Some tr" and "0 < retry_count s"
    and "v = (if 32 < length val then take 32 val else val)"
    and "m = make_msg s SetLabel ((seq s + 1) mod 128) [(''label'', v)] True False"
  shows "(\<exists>es. effects (snd (set_label s val env))
                = effects s @ Sendto tr m # WaitFor (timeout s) # es)
       \<and> (fst (set_label s val env) = Inr () \<longrightarrow> label (snd (set_label s val env)) = Some v)
       \<and> (\<forall>pre ds rest.
            int (length pre) < retry_count s
            \<and> (\<forall>ds' \<in> set pre. \<forall>y \<in> set ds'. \<not> reply_to s m Acknowledgement y)
            \<and> (\<exists>a \<in> set ds. reply_to s m Acknowledgement a)
            \<longrightarrow> fst (set_label s val (map (map Datagram) (pre @ ds # rest))) = Inr ()
              \<and> label (snd (set_label s val (map (map Datagram) (pre @ ds # rest)))) = Some v
              \<and> effects (snd (set_label s val (map (map Datagram) (pre @ ds # rest))))
                  = effects s @ concat (replicate (Suc (length pre)) [Sendto tr m, WaitFor (timeout s)]))
       \<and> (\<forall>denv.
            (\<forall>ds \<in> set denv. \<forall>y \<in> set ds. \<not> reply_to s m Acknowledgement y)
            \<longrightarrow> fst (set_label s val (map (map Datagram) denv)) = Inl LightOffline
              \<and> effects (snd (set_label s val (map (map Datagram) denv)))
                  = effects s @ concat (replicate (nat (retry_count s)) [Sendto tr m, WaitFor (timeout s)])
                      @ [LogErrorUnreachable (retry_count s), TransportClose tr]
                      @ (case task s of Some tk \<Rightarrow> [TaskCancel tk] | None \<Rightarrow> []))"
proof -
  define s1 where "s1 = s\<lparr>seq := (seq s + 1) mod 128\<rparr>"
  have f: "transport s1 = Some tr" "retry_count s1 = retry_count s" "timeout s1 = timeout s"
    "effects s1 = effects s" "task s1 = task s"
    using assms(1) by (simp_all add: s1_def)
  have t: "timeout s = (case None of None \<Rightarrow> timeout s1 | Some t' \<Rightarrow> t')" by (simp add: f)
  have n: "retry_count s = (case None of None \<Rightarrow> retry_count s1 | Some n' \<Rightarrow> n')"
    by (simp add: f)
  have rp: "\<And>y. reply_to s1 m Acknowledgement y = reply_to s m Acknowledgement y"
    by (simp add: reply_to_def s1_def)
  have sl: "\<And>env. set_label s val env
      = (case try_sending s1 m Acknowledgement None None env of
           (Inl e, s2) \<Rightarrow> (Inl e, s2)
         | (Inr _, s2) \<Rightarrow> (Inr (), s2\<lparr>label := Some v\<rparr>))"
    unfolding set_label_eq s1_def assms(3,4) by simp
  have a: "\<exists>es. effects (snd (set_label s val env))
                = effects s @ Sendto tr m # WaitFor (timeout s) # es"
  proof -
    obtain es where "effects (snd (try_sending s1 m Acknowledgement None None env))
                     = effects s1 @ Sendto tr m # WaitFor (timeout s) # es"
      using try_sending_first_send [OF f(1) t n assms(2), of m Acknowledgement env] by auto
    then have "effects (snd (set_label s val env))
               = effects s @ Sendto tr m # WaitFor (timeout s) # es"
      unfolding sl by (auto simp: f split: prod.splits sum.splits)
    then show ?thesis by blast
  qed
  have b: "fst (set_label s val env) = Inr () \<longrightarrow> label (snd (set_label s val env)) = Some v"
    unfolding sl by (auto split: prod.splits sum.splits)
  have c: "fst (set_label s val (map (map Datagram) (pre @ ds # rest))) = Inr ()
         \<and> label (snd (set_label s val (map (map Datagram) (pre @ ds # rest)))) = Some v
         \<and> effects (snd (set_label s val (map (map Datagram) (pre @ ds # rest))))
             = effects s @ concat (replicate (Suc (length pre)) [Sendto tr m, WaitFor (timeout s)])"
    if h: "int (length pre) < retry_count s"
      "\<forall>ds' \<in> set pre. \<forall>y \<in> set ds'. \<not> reply_to s m Acknowledgement y"
      "\<exists>a \<in> set ds. reply_to s m Acknowledgement a"
    for pre ds rest
  proof -
    obtain ds1 x ds2 where d: "ds = ds1 @ x # ds2" "reply_to s m Acknowledgement x"
      "\<forall>y \<in> set ds2. \<not> reply_to s m Acknowledgement y"
      using split_list_last_prop [OF h(3)] by blast
    have p: "\<forall>ds' \<in> set pre. \<forall>y \<in> set ds'. \<not> reply_to s1 m Acknowledgement y"
      "reply_to s1 m Acknowledgement x" "\<forall>y \<in> set ds2. \<not> reply_to s1 m Acknowledgement y"
      using h(2) d(2,3) by (simp_all add: rp)
    have "fst (try_sending s1 m Acknowledgement None None
                 (map (map Datagram) (pre @ (ds1 @ x # ds2) # rest))) = Inr (Some x)
          \<and> effects (snd (try_sending s1 m Acknowledgement None None
                 (map (map Datagram) (pre @ (ds1 @ x # ds2) # rest))))
             = effects s1 @ concat (replicate (Suc (length pre)) [Sendto tr m, WaitFor (timeout s)])"
      using try_sending_reply [OF f(1) t n h(1) p refl, of ds1 rest] by simp
    then show ?thesis
      unfolding sl d(1) by (auto simp: f split: prod.splits sum.splits)
  qed
  have d: "fst (set_label s val (map (map Datagram) denv)) = Inl LightOffline
         \<and> effects (snd (set_label s val (map (map Datagram) denv)))
             = effects s @ concat (replicate (nat (retry_count s)) [Sendto tr m, WaitFor (timeout s)])
                 @ [LogErrorUnreachable (retry_count s), TransportClose tr]
                 @ (case task s of Some tk \<Rightarrow> [TaskCancel tk] | None \<Rightarrow> [])"
    if h: "\<forall>ds \<in> set denv. \<forall>y \<in> set ds. \<not> reply_to s m Acknowledgement y" for denv
  proof -
    have p: "\<forall>ds \<in> set denv. \<forall>y \<in> set ds. \<not> reply_to s1 m Acknowledgement y"
      using h by (simp add: rp)
    have "fst (try_sending s1 m Acknowledgement None None (map (map Datagram) denv))
            = Inl LightOffline
          \<and> effects (snd (try_sending s1 m Acknowledgement None None (map (map Datagram) denv)))
             = effects s1 @ concat (replicate (nat (retry_count s)) [Sendto tr m, WaitFor (timeout s)])
                 @ [LogErrorUnreachable (retry_count s), TransportClose tr]
                 @ (case task s1 of Some tk \<Rightarrow> [TaskCancel tk] | None \<Rightarrow> [])"
      using try_sending_no_reply [OF f(1) t n assms(2) p] by simp
    then show ?thesis
      unfolding sl by (auto simp: f split: prod.splits sum.splits)
  qed
  show ?thesis
    using a b c d by blast
qed

theorem set_label_truncates_witness:
  "fst (set_label connected_light (str ''Kitchen ceiling lamp above the large oak table'')
      [[Datagram \<lparr> msg_type = Acknowledgement, target_addr = ''d0:73:d5:01:0a:f3'',
           msg_source_id = 7, seq_num = 1, payload = [], ack_requested = False,
           response_requested = False \<rparr>]]) = Inr ()
   \<and> label (snd (set_label connected_light (str ''Kitchen ceiling lamp above the large oak table'')
      [[Datagram \<lparr> msg_type = Acknowledgement, target_addr = ''d0:73:d5:01:0a:f3'',
           msg_source_id = 7, seq_num = 1, payload = [], ack_requested = False,
           response_requested = False \<rparr>]]))
     = Some (str ''Kitchen ceiling lamp above the l'')
   \<and> effects (snd (set_label connected_light (str ''Kitchen ceiling lamp above the large oak table'')
      [[Datagram \<lparr> msg_type = Acknowledgement, target_addr = ''d0:73:d5:01:0a:f3'',
           msg_source_id = 7, seq_num = 1, payload = [], ack_requested = False,
           response_requested = False \<rparr>]]))
     = effects connected_light @
       [Sendto (AF_INET, ''10.0.0.5'', 56700)
          \<lparr> msg_type = SetLabel, target_addr = ''d0:73:d5:01:0a:f3'', msg_source_id = 7,
            seq_num = 1, payload = [(''label'', str ''Kitchen ceiling lamp above the l'')],
            ack_requested = True, response_requested = False \<rparr>,
        WaitFor (1 / 2)]"
proof -
  define a where "a = \<lparr> msg_type = Acknowledgement, target_addr = ''d0:73:d5:01:0a:f3'',
           msg_source_id = 7, seq_num = 1, payload = [], ack_requested = False,
           response_requested = False \<rparr>"
  define m where "m = \<lparr> msg_type = SetLabel, target_addr = ''d0:73:d5:01:0a:f3'', msg_source_id = 7,
            seq_num = 1, payload = [(''label'', str ''Kitchen ceiling lamp above the l'')],
            ack_requested = True, response_requested = False \<rparr>"
  have h: "transport connected_light = Some (AF_INET, ''10.0.0.5'', 56700)"
    "0 < retry_count connected_light"
    "str ''Kitchen ceiling lamp above the l''
       = (if 32 < length (str ''Kitchen ceiling lamp above the large oak table'')
          then take 32 (str ''Kitchen ceiling lamp above the large oak table'')
          else str ''Kitchen ceiling lamp above the large oak table'')"
    "m = make_msg connected_light SetLabel ((seq connected_light + 1) mod 128)
           [(''label'', str ''Kitchen ceiling lamp above the l'')] True False"
    by (simp_all add: connected_light_eq str_def make_msg_def m_def)
  have r: "reply_to connected_light m Acknowledgement a" "timeout connected_light = 1 / 2"
    by (simp_all add: reply_to_def connected_light_eq a_def m_def)
  have "int (length ([] :: msg list list)) < retry_count connected_light
        \<and> (\<forall>ds' \<in> set []. \<forall>y \<in> set ds'. \<not> reply_to connected_light m Acknowledgement y)
        \<and> (\<exists>x \<in> set [a]. reply_to connected_light m Acknowledgement x)"
    using h(2) r(1) by simp
  then have "fst (set_label connected_light (str ''Kitchen ceiling lamp above the large oak table'')
               (map (map Datagram) ([] @ [a] # []))) = Inr ()
     \<and> label (snd (set_label connected_light (str ''Kitchen ceiling lamp above the large oak table'')
               (map (map Datagram) ([] @ [a] # [])))) = Some (str ''Kitchen ceiling lamp above the l'')
     \<and> effects (snd (set_label connected_light (str ''Kitchen ceiling lamp above the large oak table'')
               (map (map Datagram) ([] @ [a] # []))))
         = effects connected_light @ concat (replicate (Suc (length ([] :: msg list list)))
              [Sendto (AF_INET, ''10.0.0.5'', 56700) m, WaitFor (timeout connected_light)])"
    using set_label_truncates [OF h, of "[]"] by blast
  then show ?thesis
    unfolding a_def [symmetric] m_def [symmetric] by (simp add: r(2))
qed

subsection \<open>Sequence numbers of requests in flight\<close>

lemma request_msg_seq_num [simp]: "seq_num (request_msg s rq k) = k"
  by (cases rq) (simp_all add: make_msg_def)

lemma request_msg_frame [simp]:
  "request_msg (s\<lparr>seq := a\<rparr>) rq k = request_msg s rq k"
  by (cases rq) (simp_all add: make_msg_def)

lemma request_begin_waiting:
  assumes "transport s = Some tr" "0 < retry_count s"
  shows "request_begin s rq
         = (Waiting (request_msg s rq ((seq s + 1) mod 128)),
            s\<lparr>seq := (seq s + 1) mod 128,
              message := (message s)((seq s + 1) mod 128
                           \<mapsto> (request_response_type rq, Some False, None)),
              effects := effects s @ [Sendto tr (request_msg s rq ((seq s + 1) mod 128))]\<rparr>)"
  using assms
  by (simp add: request_begin_def seq_next_def Let_def new_entry_def send_attempt_def)

lemma req_with_resp_begin_eq:
  "req_with_resp_begin s mt rt = request_begin s (RespRequest mt rt None)"
  by (simp add: req_with_resp_begin_def request_begin_def Let_def split: prod.splits)

lemma seq_shift: "((a + 1) mod 128 + 1 + i) mod 128 = (a + 1 + Suc i) mod (128::nat)"
proof -
  have "((a + 1) mod 128 + (1 + i)) mod 128 = ((a + 1) + (1 + i)) mod 128"
    by (rule mod_add_left_eq)
  then show ?thesis by (simp add: add.assoc)
qed

lemma start_requests_seqs:
  assumes "transport s = Some tr" "0 < retry_count s"
  shows "map seq_num (fst (start_requests rqs s))
           = map (\<lambda>i. (seq s + 1 + i) mod 128) [0..<length rqs]
       \<and> dom (message (snd (start_requests rqs s)))
           = dom (message s) \<union> (\<lambda>i. (seq s + 1 + i) mod 128) ` {0..<length rqs}"
  using assms
proof (induction rqs arbitrary: s)
  case Nil
  then show ?case by simp
next
  case (Cons rq rqs)
  define n where "n = length rqs"
  define k where "k = (seq s + 1) mod 128"
  define m where "m = request_msg s rq k"
  define s1 where "s1 = s\<lparr>seq := k,
              message := (message s)(k \<mapsto> (request_response_type rq, Some False, None)),
              effects := effects s @ [Sendto tr m]\<rparr>"
  have b: "request_begin s rq = (Waiting m, s1)"
    using request_begin_waiting [OF Cons.prems, of rq]
    by (simp add: k_def m_def s1_def)
  have p1: "transport s1 = Some tr" "0 < retry_count s1" "seq s1 = k"
    "dom (message s1) = insert k (dom (message s))"
    using Cons.prems by (simp_all add: s1_def)
  obtain ms s2 where r: "start_requests rqs s1 = (ms, s2)"
    by (cases "start_requests rqs s1")
  have ih: "map seq_num ms = map (\<lambda>i. (k + 1 + i) mod 128) [0..<n]"
    "dom (message s2) = insert k (dom (message s)) \<union> (\<lambda>i. (k + 1 + i) mod 128) ` {0..<n}"
    using Cons.IH [OF p1(1,2)] r p1(3,4) by (simp_all add: n_def)
  have sh: "\<And>i. (k + 1 + i) mod 128 = (seq s + 1 + Suc i) mod 128"
    unfolding k_def by (rule seq_shift)
  have st: "start_requests (rq # rqs) s = (m # ms, s2)"
    using b r by simp
  have km: "seq_num m = (seq s + 1 + 0) mod 128"
    by (simp add: m_def k_def)
  have l: "map (\<lambda>i. (seq s + 1 + i) mod 128) [0..<Suc n]
           = (seq s + 1 + 0) mod 128 # map (\<lambda>i. (seq s + 1 + Suc i) mod 128) [0..<n]"
    by (simp only: upt_conv_Cons [of 0 "Suc n"] map_Suc_upt [symmetric] list.map map_map o_def
        zero_less_Suc if_True)
  have d: "(\<lambda>i. (seq s + 1 + i) mod 128) ` {0..<Suc n}
           = insert ((seq s + 1 + 0) mod 128) ((\<lambda>i. (seq s + 1 + Suc i) mod 128) ` {0..<n})"
    by (simp only: atLeast0_lessThan_Suc_eq_insert_0 image_insert image_image)
  have k0: "k = (seq s + 1 + 0) mod 128" by (simp add: k_def)
  have len: "length (rq # rqs) = Suc n" by (simp add: n_def)
  show ?case
    unfolding st fst_conv snd_conv list.map ih sh l d km k0 [symmetric] len by auto
qed

lemma mod_128_shift_eq:
  "((a + i) mod 128 = (a + j) mod 128) \<longleftrightarrow> (i mod 128 = j mod (128::nat))"
  unfolding nat_mod_eq_iff by (simp add: add.assoc)

lemma mod_128_shift_Suc:
  "(Suc (a + i) mod 128 = Suc (a + j) mod 128) \<longleftrightarrow> (i mod 128 = j mod (128::nat))"
  using mod_128_shift_eq [of "Suc a" i j] by simp

lemma start_requests_nth:
  assumes "transport s \<noteq> None" "0 < retry_count s"
  shows "length (fst (start_requests rqs s)) = length rqs"
    and "i < length rqs \<Longrightarrow> seq_num (fst (start_requests rqs s) ! i) = (seq s + 1 + i) mod 128"
proof -
  obtain tr where tr: "transport s = Some tr" using assms(1) by auto
  have m: "map seq_num (fst (start_requests rqs s))
           = map (\<lambda>i. (seq s + 1 + i) mod 128) [0..<length rqs]"
    using start_requests_seqs [OF tr assms(2), of rqs] by simp
  show l: "length (fst (start_requests rqs s)) = length rqs"
    using arg_cong [OF m, of length] by simp
  show "seq_num (fst (start_requests rqs s) ! i) = (seq s + 1 + i) mod 128" if "i < length rqs"
  proof -
    have "map seq_num (fst (start_requests rqs s)) ! i
          = map (\<lambda>i. (seq s + 1 + i) mod 128) [0..<length rqs] ! i"
      by (simp only: m)
    then show ?thesis using that l by simp
  qed
qed

text \<open>The messages that the waiting callers hold are those of their requests.\<close>

lemma start_requests_msgs:
  assumes "transport s = Some tr" "0 < retry_count s"
  shows "fst (start_requests rqs s)
         = map (\<lambda>i. request_msg s (rqs ! i) ((seq s + 1 + i) mod 128)) [0..<length rqs]"
  using assms
proof (induction rqs arbitrary: s)
  case Nil
  then show ?case by simp
next
  case (Cons rq rqs)
  define n where "n = length rqs"
  define k where "k = (seq s + 1) mod 128"
  define m where "m = request_msg s rq k"
  define s1 where "s1 = s\<lparr>seq := k,
              message := (message s)(k \<mapsto> (request_response_type rq, Some False, None)),
              effects := effects s @ [Sendto tr m]\<rparr>"
  have b: "request_begin s rq = (Waiting m, s1)"
    using request_begin_waiting [OF Cons.prems, of rq]
    by (simp add: k_def m_def s1_def)
  have p1: "transport s1 = Some tr" "0 < retry_count s1" "seq s1 = k"
    using Cons.prems by (simp_all add: s1_def)
  have rm: "\<And>rq' k'. request_msg s1 rq' k' = request_msg s rq' k'"
  proof -
    fix rq' k'
    show "request_msg s1 rq' k' = request_msg s rq' k'"
      by (cases rq') (simp_all add: make_msg_def s1_def)
  qed
  obtain ms s2 where r: "start_requests rqs s1 = (ms, s2)"
    by (cases "start_requests rqs s1")
  have sh: "\<And>i. (k + 1 + i) mod 128 = (seq s + 1 + Suc i) mod 128"
    unfolding k_def by (rule seq_shift)
  have ih0: "ms = map (\<lambda>i. request_msg s1 (rqs ! i) ((seq s1 + 1 + i) mod 128)) [0..<length rqs]"
    using Cons.IH [OF p1(1,2)] r by simp
  have ih: "ms = map (\<lambda>i. request_msg s (rqs ! i) ((seq s + 1 + Suc i) mod 128)) [0..<n]"
    using ih0 unfolding rm p1(3) sh n_def .
  have st: "start_requests (rq # rqs) s = (m # ms, s2)"
    using b r by simp
  have l: "map (\<lambda>i. request_msg s ((rq # rqs) ! i) ((seq s + 1 + i) mod 128)) [0..<Suc n]
           = request_msg s rq ((seq s + 1 + 0) mod 128)
             # map (\<lambda>i. request_msg s (rqs ! i) ((seq s + 1 + Suc i) mod 128)) [0..<n]"
    by (simp only: upt_conv_Cons [of 0 "Suc n"] map_Suc_upt [symmetric] list.map map_map o_def
        zero_less_Suc if_True nth_Cons_0 nth_Cons_Suc)
  have len: "length (rq # rqs) = Suc n" by (simp add: n_def)
  show ?case
    unfolding st fst_conv len l ih by (simp add: m_def k_def)
qed

text \<open>
  C3, as amended. On a session with a transport and a positive retry count, let the
  requests of a list, of any of the three kinds, be begun one after the other, none of
  them completing in between. The \<open>i\<close>-th (from 0) waits holding the message of its
  request with sequence number \<open>(seq + 1 + i) mod 128\<close>, within 0 to 127; two of them
  hold the same number exactly when their positions agree modulo 128, so up to 128
  requests in flight have pairwise different numbers; and the table holds one entry per
  number handed out, no more. A call of \<open>_try_sending\<close>, on any session and whatever
  the other calls of the session do while it waits, that returns a result or raises
  \<open>LightOffline\<close> has left no entry under its number.
\<close>

theorem sequence_numbers_cycle:
  assumes "transport s \<noteq> None" "0 < retry_count s"
  shows "length (fst (start_requests rqs s)) = length rqs
       \<and> (\<forall>i<length rqs.
             fst (start_requests rqs s) ! i = request_msg s (rqs ! i) ((seq s + 1 + i) mod 128)
           \<and> seq_num (fst (start_requests rqs s) ! i) = (seq s + 1 + i) mod 128
           \<and> seq_num (fst (start_requests rqs s) ! i) < 128)
       \<and> (\<forall>i<length rqs. \<forall>j<length rqs.
             seq_num (fst (start_requests rqs s) ! i) = seq_num (fst (start_requests rqs s) ! j)
             \<longleftrightarrow> i mod 128 = j mod 128)
       \<and> (length rqs \<le> 128 \<longrightarrow> distinct (map seq_num (fst (start_requests rqs s))))
       \<and> dom (message (snd (start_requests rqs s)))
           = dom (message s) \<union> set (map seq_num (fst (start_requests rqs s)))
       \<and> ((\<exists>r. fst (try_sending s' m rt timeout_secs max_attempts env) = Inr r)
            \<or> fst (try_sending s' m rt timeout_secs max_attempts env) = Inl LightOffline
          \<longrightarrow> message (snd (try_sending s' m rt timeout_secs max_attempts env)) (seq_num m)
              = None)"
proof -
  note len = start_requests_nth(1) [OF assms, of rqs]
  note nth = start_requests_nth(2) [OF assms, of _ rqs]
  obtain tr where tr: "transport s = Some tr" using assms(1) by auto
  note ss = start_requests_seqs [OF tr assms(2), of rqs]
  note sm = start_requests_msgs [OF tr assms(2), of rqs]
  have a0: "\<forall>i<length rqs.
      fst (start_requests rqs s) ! i = request_msg s (rqs ! i) ((seq s + 1 + i) mod 128)"
    unfolding sm by simp
  have a: "\<forall>i<length rqs.
             fst (start_requests rqs s) ! i = request_msg s (rqs ! i) ((seq s + 1 + i) mod 128)
           \<and> seq_num (fst (start_requests rqs s) ! i) = (seq s + 1 + i) mod 128
           \<and> seq_num (fst (start_requests rqs s) ! i) < 128"
    using nth a0 by simp
  have b: "\<forall>i<length rqs. \<forall>j<length rqs.
             seq_num (fst (start_requests rqs s) ! i) = seq_num (fst (start_requests rqs s) ! j)
             \<longleftrightarrow> i mod 128 = j mod 128"
    using nth by (simp add: mod_128_shift_Suc)
  have c: "distinct (map seq_num (fst (start_requests rqs s)))" if "length rqs \<le> 128"
  proof -
    have "inj_on (\<lambda>i. (seq s + 1 + i) mod 128) {0..<length rqs}"
    proof (rule inj_onI)
      fix i j
      assume "i \<in> {0..<length rqs}" "j \<in> {0..<length rqs}"
        "(seq s + 1 + i) mod 128 = (seq s + 1 + j) mod 128"
      then have "i mod 128 = j mod 128" "i < 128" "j < 128"
        using that by (simp_all add: mod_128_shift_Suc)
      then show "i = j" by simp
    qed
    then show ?thesis
      using ss by (simp add: distinct_map)
  qed
  have d: "dom (message (snd (start_requests rqs s)))
           = dom (message s) \<union> set (map seq_num (fst (start_requests rqs s)))"
    using ss by simp
  have e: "(\<exists>r. fst (try_sending s' m rt timeout_secs max_attempts env) = Inr r)
            \<or> fst (try_sending s' m rt timeout_secs max_attempts env) = Inl LightOffline
          \<longrightarrow> message (snd (try_sending s' m rt timeout_secs max_attempts env)) (seq_num m)
              = None"
    using try_sending_removes_entry by blast
  show ?thesis
    using len a b c d e by blast
qed

theorem sequence_numbers_cycle_witness:
  "seq_num (fst (start_requests
      [RespRequest GetLabel StateLabel None, AckRequest SetLabel [(''label'', str ''Desk'')],
       AckRespRequest GetGroup StateGroup []] connected_light) ! 0) = 1
   \<and> seq_num (fst (start_requests
      [RespRequest GetLabel StateLabel None, AckRequest SetLabel [(''label'', str ''Desk'')],
       AckRespRequest GetGroup StateGroup []] connected_light) ! 1) = 2
   \<and> seq_num (fst (start_requests
      [RespRequest GetLabel StateLabel None, AckRequest SetLabel [(''label'', str ''Desk'')],
       AckRespRequest GetGroup StateGroup []] connected_light) ! 2) = 3
   \<and> distinct (map seq_num (fst (start_requests
      [RespRequest GetLabel StateLabel None, AckRequest SetLabel [(''label'', str ''Desk'')],
       AckRespRequest GetGroup StateGroup []] connected_light)))
   \<and> message (snd (try_sending connected_light label_request StateLabel None None
        [[Datagram \<lparr> msg_type = StateLabel, target_addr = ''d0:73:d5:01:0a:f3'',
             msg_source_id = 7, seq_num = 1, payload = [(''label'', str ''Desk'')],
             ack_requested = False, response_requested = False \<rparr>]])) 1 = None"
proof -
  define rqs where "rqs = [RespRequest GetLabel StateLabel None,
       AckRequest SetLabel [(''label'', str ''Desk'')], AckRespRequest GetGroup StateGroup []]"
  define x where "x = \<lparr> msg_type = StateLabel, target_addr = ''d0:73:d5:01:0a:f3'',
             msg_source_id = 7, seq_num = 1, payload = [(''label'', str ''Desk'')],
             ack_requested = False, response_requested = False \<rparr>"
  have h: "transport connected_light \<noteq> None" "0 < retry_count connected_light"
    "seq connected_light = 0"
    by (simp_all add: connected_light_eq)
  have tr: "transport connected_light = Some (AF_INET, ''10.0.0.5'', 56700)"
    by (simp add: connected_light_eq)
  have lr: "length rqs = 3" by (simp add: rqs_def)
  have sq: "seq_num label_request = 1" by (simp add: label_request_def)
  have rp: "reply_to connected_light label_request StateLabel x"
    by (simp add: reply_to_def x_def label_request_def connected_light_eq)
  have tm: "timeout connected_light
            = (case None of None \<Rightarrow> timeout connected_light | Some t' \<Rightarrow> t')"
    by simp
  have rc: "retry_count connected_light
            = (case None of None \<Rightarrow> retry_count connected_light | Some n' \<Rightarrow> n')"
    by simp
  have lt: "int (length ([] :: msg list list)) < retry_count connected_light"
    using h(2) by simp
  have p1: "\<forall>ds \<in> set ([] :: msg list list). \<forall>y \<in> set ds.
              \<not> reply_to connected_light label_request StateLabel y"
    by simp
  have p2: "\<forall>y \<in> set ([] :: msg list). \<not> reply_to connected_light label_request StateLabel y"
    by simp
  have "fst (try_sending connected_light label_request StateLabel None None
          (map (map Datagram) ([] @ ([] @ x # []) # []))) = Inr (Some x)"
    using try_sending_reply [OF tr tm rc lt p1 rp p2 refl, of "[]" "[]"] by simp
  then have f: "\<exists>r. fst (try_sending connected_light label_request StateLabel None None
          [[Datagram x]]) = Inr r"
    by simp
  note t = sequence_numbers_cycle [where s = connected_light and rqs = rqs
      and s' = connected_light and m = label_request and rt = StateLabel
      and timeout_secs = None and max_attempts = None and env = "[[Datagram x]]", OF h(1,2)]
  have "\<forall>i<3. seq_num (fst (start_requests rqs connected_light) ! i) = (0 + 1 + i) mod 128"
    using t h(3) lr by simp
  then have "seq_num (fst (start_requests rqs connected_light) ! 0) = 1"
    "seq_num (fst (start_requests rqs connected_light) ! 1) = 2"
    "seq_num (fst (start_requests rqs connected_light) ! 2) = 3"
    by simp_all
  moreover have "distinct (map seq_num (fst (start_requests rqs connected_light)))"
    using t lr by simp
  moreover have "message (snd (try_sending connected_light label_request StateLabel None None
        [[Datagram x]])) 1 = None"
    using t f sq by simp
  ultimately show ?thesis
    unfolding rqs_def x_def by simp
qed

text \<open>
  C3 as stated fails: with 129 requests begun on one session before any completes, the
  first and the last both wait holding sequence number 1.
\<close>

theorem sequence_number_reused_counterexample:
  "length (fst (start_requests (replicate 129 (RespRequest GetLabel StateLabel None))
      connected_light)) = 129
   \<and> seq_num (fst (start_requests (replicate 129 (RespRequest GetLabel StateLabel None))
      connected_light) ! 0) = 1
   \<and> seq_num (fst (start_requests (replicate 129 (RespRequest GetLabel StateLabel None))
      connected_light) ! 128) = 1
   \<and> \<not> distinct (map seq_num (fst (start_requests
      (replicate 129 (RespRequest GetLabel StateLabel None)) connected_light)))"
proof -
  define rqs where "rqs = replicate 129 (RespRequest GetLabel StateLabel None)"
  have lr: "length rqs = 129" by (simp add: rqs_def)
  have h: "transport connected_light \<noteq> None" "0 < retry_count connected_light"
    "seq connected_light = 0"
    by (simp_all add: connected_light_eq)
  have l: "length (fst (start_requests rqs connected_light)) = 129"
    using start_requests_nth(1) [OF h(1,2), of rqs] lr by simp
  have a: "seq_num (fst (start_requests rqs connected_light) ! 0) = 1"
    using start_requests_nth(2) [OF h(1,2), of 0 rqs] h(3) lr by simp
  have b: "seq_num (fst (start_requests rqs connected_light) ! 128) = 1"
    using start_requests_nth(2) [OF h(1,2), of 128 rqs] h(3) lr by simp
  have "\<not> distinct (map seq_num (fst (start_requests rqs connected_light)))"
  proof
    assume "distinct (map seq_num (fst (start_requests rqs connected_light)))"
    then have "map seq_num (fst (start_requests rqs connected_light)) ! 0
               \<noteq> map seq_num (fst (start_requests rqs connected_light)) ! 128"
      using l by (simp add: distinct_conv_nth)
    then show False using a b l by simp
  qed
  then show ?thesis using l a b unfolding rqs_def by simp
qed

end
